theory Spec2Isabelle
  imports Main "HOL-Library.AList" "HOL-Library.Sublist"
begin

section \<open>Qt string helpers used by the cache\<close>

text \<open>
  \<open>QString\<close> is modelled as \<open>string\<close>. \<open>QString::startsWith\<close> is \<open>prefix\<close>;
  \<open>QString::contains\<close> (case sensitive, the default) is the substring test below: the
  empty text is contained in every string.
\<close>

fun contains_str :: "string \<Rightarrow> string \<Rightarrow> bool" where
  "contains_str [] t = (t = [])"
| "contains_str (c # s) t = (prefix t (c # s) \<or> contains_str s t)"

text \<open>\<open>QString::split(sep, QString::SkipEmptyParts)\<close>: the non-empty fields between separators.\<close>

fun split_fields :: "char \<Rightarrow> string \<Rightarrow> string \<Rightarrow> string list" where
  "split_fields sep cur [] = [rev cur]"
| "split_fields sep cur (c # cs) =
     (if c = sep then rev cur # split_fields sep [] cs else split_fields sep (c # cur) cs)"

definition split_skip_empty :: "char \<Rightarrow> string \<Rightarrow> string list" where
  "split_skip_empty sep s = filter (\<lambda>f. f \<noteq> []) (split_fields sep [] s)"

text \<open>
  \<open>QString::toInt()\<close> (base 10): surrounding white space is ignored, a sign may lead, at
  least one digit must follow and nothing else; a text that is not such a number, or a
  number outside the 32-bit range, yields 0. \<open>QString::number(int)\<close> prints decimal.
\<close>

definition is_space :: "char \<Rightarrow> bool" where
  "is_space c = (c \<in> set [CHR '' '', CHR 0x09, CHR 0x0A, CHR 0x0B, CHR 0x0C, CHR 0x0D])"

definition trimmed :: "string \<Rightarrow> string" where
  "trimmed s = rev (dropWhile is_space (rev (dropWhile is_space s)))"

definition is_digit :: "char \<Rightarrow> bool" where
  "is_digit c = (48 \<le> (of_char c :: nat) \<and> (of_char c :: nat) \<le> 57)"

definition digits_val :: "string \<Rightarrow> int" where
  "digits_val ds = foldl (\<lambda>acc c. 10 * acc + (int (of_char c) - 48)) 0 ds"

definition toInt :: "string \<Rightarrow> int" where
  "toInt s =
     (let t = trimmed s;
          neg = (t \<noteq> [] \<and> hd t = CHR ''-'');
          body = (if t \<noteq> [] \<and> (hd t = CHR ''-'' \<or> hd t = CHR ''+'') then tl t else t);
          v = (if neg then - digits_val body else digits_val body)
      in if body = [] \<or> \<not> list_all is_digit body then 0
         else if v < - (2 ^ 31) \<or> 2 ^ 31 - 1 < v then 0
         else v)"

fun digit_chars :: "nat \<Rightarrow> nat \<Rightarrow> string" where
  "digit_chars 0 n = []"
| "digit_chars (Suc fuel) n =
     (if n < 10 then [char_of (48 + n)]
      else digit_chars fuel (n div 10) @ [char_of (48 + n mod 10)])"

definition number_str :: "int \<Rightarrow> string" where
  "number_str i =
     (if i < 0 then CHR ''-'' # digit_chars (Suc (nat (- i))) (nat (- i))
      else digit_chars (Suc (nat i)) (nat i))"

section \<open>Reference Set (References.h, References.cpp)\<close>

datatype RefType = Tag | LocalBranch | RemoteBranches | Applied | UnApplied | AnyRef

text \<open>\<open>QMap<Type, QStringList> mReferences\<close>: an absent key reads as the empty list.\<close>

type_synonym References = "RefType \<rightharpoonup> string list"

definition References_getReferences :: "References \<Rightarrow> RefType \<Rightarrow> string list" where
  "References_getReferences m t = (case m t of None \<Rightarrow> [] | Some l \<Rightarrow> l)"

definition References_addReference :: "RefType \<Rightarrow> string \<Rightarrow> References \<Rightarrow> References" where
  "References_addReference t v m = m(t \<mapsto> References_getReferences m t @ [v])"

definition References_removeReference :: "RefType \<Rightarrow> string \<Rightarrow> References \<Rightarrow> References" where
  "References_removeReference t v m = m(t \<mapsto> removeAll v (References_getReferences m t))"

section \<open>Commit Record\<close>

text \<open>
  Modelled from the spec: the class \<open>CommitInfo\<close> (CommitInfo.h is not among the sources).
  The spec's Commit Record holds the identifier, the ordered parent identifiers, the author,
  the author timestamp, the short and long log, the attached Reference Set and the computed
  lane sequence. The default record is empty in every field. \<open>parent i\<close> of a record with
  no such parent is the empty string (the cache calls \<open>parent(0)\<close> on root commits),
  and equality is structural.
\<close>

record 'lane CommitInfo =
  sha :: string
  parents :: "string list"
  author :: string
  authorDate :: int
  shortLog :: string
  longLog :: string
  refs :: References
  lanes :: "'lane list"

definition CommitInfo_default :: "'lane CommitInfo" where
  "CommitInfo_default =
     \<lparr>sha = [], parents = [], author = [], authorDate = 0, shortLog = [], longLog = [],
      refs = Map.empty, lanes = []\<rparr>"

definition ZERO_SHA :: string where
  "ZERO_SHA = replicate 40 (CHR ''0'')"

definition parent :: "nat \<Rightarrow> 'lane CommitInfo \<Rightarrow> string" where
  "parent i c = (if i < length (parents c) then parents c ! i else [])"

definition parentsCount :: "'lane CommitInfo \<Rightarrow> nat" where
  "parentsCount c = length (parents c)"

definition setLanes :: "'lane list \<Rightarrow> 'lane CommitInfo \<Rightarrow> 'lane CommitInfo" where
  "setLanes ls c = c\<lparr>lanes := ls\<rparr>"

definition getReferences :: "'lane CommitInfo \<Rightarrow> RefType \<Rightarrow> string list" where
  "getReferences c t = References_getReferences (refs c) t"

definition addReference :: "RefType \<Rightarrow> string \<Rightarrow> 'lane CommitInfo \<Rightarrow> 'lane CommitInfo" where
  "addReference t v c = c\<lparr>refs := References_addReference t v (refs c)\<rparr>"

definition removeReference :: "RefType \<Rightarrow> string \<Rightarrow> 'lane CommitInfo \<Rightarrow> 'lane CommitInfo" where
  "removeReference t v c = c\<lparr>refs := References_removeReference t v (refs c)\<rparr>"

section \<open>File-Change Record\<close>

text \<open>
  Modelled from the spec: the class \<open>RevisionFiles\<close> (RevisionFiles.h is not among the
  sources). The spec's File-Change Record is the ordered list of file paths, the status
  flags of each entry (a set of flags per entry), the extended-status annotations of the
  renamed or copied entries and the originating parent number of each entry;
  \<open>setStatus\<close> and \<open>appendExtStatus\<close> append the status and the annotation of the entry
  being added, \<open>count\<close> is the number of file paths, and equality is structural.
\<close>

datatype StatusFlag = MODIFIED | DELETED | NEW | UNKNOWN | IN_INDEX | CONFLICT

record RevisionFiles =
  mFiles :: "string list"
  mergeParent :: "int list"
  mFileStatus :: "StatusFlag set list"
  mRenamedFiles :: "string list"
  mOnlyModified :: bool

definition RevisionFiles_default :: RevisionFiles where
  "RevisionFiles_default =
     \<lparr>mFiles = [], mergeParent = [], mFileStatus = [], mRenamedFiles = [], mOnlyModified = True\<rparr>"

definition rf_count :: "RevisionFiles \<Rightarrow> nat" where
  "rf_count rf = length (mFiles rf)"

definition setStatus :: "StatusFlag \<Rightarrow> RevisionFiles \<Rightarrow> RevisionFiles" where
  "setStatus f rf = rf\<lparr>mFileStatus := mFileStatus rf @ [{f}]\<rparr>"

definition appendExtStatus :: "string \<Rightarrow> RevisionFiles \<Rightarrow> RevisionFiles" where
  "appendExtStatus e rf = rf\<lparr>mRenamedFiles := mRenamedFiles rf @ [e]\<rparr>"

definition setOnlyModified :: "bool \<Rightarrow> RevisionFiles \<Rightarrow> RevisionFiles" where
  "setOnlyModified b rf = rf\<lparr>mOnlyModified := b\<rparr>"

section \<open>Lane Engine\<close>

text \<open>
  Modelled from the spec: the class \<open>Lanes\<close> (lanes.h is not among the sources). The cache
  only drives the engine, so the engine is a parameter: its state is the type \<open>'ls\<close>, a lane
  marker is the type \<open>'lane\<close>, and the record below holds the operations that
  \<open>calculateLanes\<close> and \<open>resetLanes\<close> call. \<open>isFork\<close> answers with the pair
  (is a fork, is a discontinuity).
\<close>

record ('ls, 'lane) Lanes =
  isFork :: "string \<Rightarrow> 'ls \<Rightarrow> bool \<times> bool"
  changeActiveLane :: "string \<Rightarrow> 'ls \<Rightarrow> 'ls"
  setFork :: "string \<Rightarrow> 'ls \<Rightarrow> 'ls"
  setMerge :: "string list \<Rightarrow> 'ls \<Rightarrow> 'ls"
  setInitial :: "'ls \<Rightarrow> 'ls"
  getLanes :: "'ls \<Rightarrow> 'lane list"
  nextParent :: "string \<Rightarrow> 'ls \<Rightarrow> 'ls"
  afterMerge :: "'ls \<Rightarrow> 'ls"
  afterFork :: "'ls \<Rightarrow> 'ls"
  isBranch :: "'ls \<Rightarrow> bool"
  afterBranch :: "'ls \<Rightarrow> 'ls"

definition resetLanes :: "('ls, 'lane) Lanes \<Rightarrow> 'lane CommitInfo \<Rightarrow> bool \<Rightarrow> 'ls \<Rightarrow> 'ls" where
  "resetLanes L c fork ls =
     (let nextSha = (if parentsCount c = 0 then [] else parent 0 c);
          l1 = nextParent L nextSha ls;
          l2 = (if parentsCount c > 1 then afterMerge L l1 else l1);
          l3 = (if fork then afterFork L l2 else l2)
      in if isBranch L l3 then afterBranch L l3 else l3)"

definition calculateLanes ::
  "('ls, 'lane) Lanes \<Rightarrow> 'lane CommitInfo \<Rightarrow> 'ls \<Rightarrow> 'lane list \<times> 'ls" where
  "calculateLanes L c ls =
     (let s = sha c;
          fork = fst (isFork L s ls);
          isDiscontinuity = snd (isFork L s ls);
          isMerge = (parentsCount c > 1);
          l1 = (if isDiscontinuity then changeActiveLane L s ls else ls);
          l2 = (if fork then setFork L s l1 else l1);
          l3 = (if isMerge then setMerge L (parents c) l2 else l2);
          l4 = (if parentsCount c = 0 then setInitial L l3 else l3)
      in (getLanes L l4, resetLanes L c fork l4))"

section \<open>Revision Cache (RevisionsCache.h, RevisionsCache.cpp)\<close>

subsection \<open>Owned records and pointers\<close>

text \<open>
  The cache owns its records through \<open>CommitInfo *\<close>. A pointer is \<open>nat option\<close>
  (\<open>None\<close> is \<open>nullptr\<close>) and the owned records are a store indexed by address:
  \<open>new\<close> takes the next address, \<open>delete\<close> empties the cell, and reading through a
  pointer whose cell is empty has no defined result. Every operation that can read through
  such a pointer, or index a vector out of range, returns an \<open>option\<close>: \<open>None\<close> stands
  for undefined behaviour of the C++ code.
\<close>

type_synonym ptr = "nat option"

type_synonym 'lane store = "'lane CommitInfo option list"

definition deref :: "'lane store \<Rightarrow> nat \<Rightarrow> 'lane CommitInfo option" where
  "deref h a = (if a < length h then h ! a else None)"

definition new_CommitInfo :: "'lane CommitInfo \<Rightarrow> 'lane store \<Rightarrow> 'lane store \<times> nat" where
  "new_CommitInfo c h = (h @ [Some c], length h)"

definition delete_CommitInfo :: "nat \<Rightarrow> 'lane store \<Rightarrow> 'lane store" where
  "delete_CommitInfo a h = h[a := None]"

definition assign :: "nat \<Rightarrow> 'lane CommitInfo \<Rightarrow> 'lane store \<Rightarrow> 'lane store" where
  "assign a c h = h[a := Some c]"

record LocalBranchDistances =
  aheadMaster :: int
  behindMaster :: int
  aheadOrigin :: int
  behindOrigin :: int

definition LocalBranchDistances_default :: LocalBranchDistances where
  "LocalBranchDistances_default =
     \<lparr>aheadMaster = 0, behindMaster = 0, aheadOrigin = 0, behindOrigin = 0\<rparr>"

text \<open>
  The members of \<open>RevisionsCache\<close>. \<open>mCommitsMap\<close> is a \<open>QHash\<close> whose keys the code
  enumerates (\<open>keys()\<close>): it is an association list read with \<open>map_of\<close>, and the order of
  the list stands for the iteration order of the hash, which Qt leaves unspecified.
  The mutex is not modelled: every operation runs to its end alone.
\<close>

record ('ls, 'lane) RevisionsCache =
  mCacheLocked :: bool
  mCommits :: "ptr list"
  mCommitsMap :: "(string \<times> ptr) list"
  mRevisionFilesMap :: "(string \<times> string) \<rightharpoonup> RevisionFiles"
  mReferences :: "ptr list"
  mLocalBranchDistances :: "string \<rightharpoonup> LocalBranchDistances"
  mLanes :: 'ls
  mDirNames :: "string list"
  mFileNames :: "string list"
  mUntrackedfiles :: "string list"
  owned :: "'lane store"

text \<open>\<open>QHash::value(key)\<close> with the default \<open>nullptr\<close>, \<open>contains\<close> and \<open>keys\<close>.\<close>

definition hash_value :: "(string \<times> ptr) list \<Rightarrow> string \<Rightarrow> ptr" where
  "hash_value m k = (case map_of m k of None \<Rightarrow> None | Some p \<Rightarrow> p)"

definition hash_contains :: "(string \<times> ptr) list \<Rightarrow> string \<Rightarrow> bool" where
  "hash_contains m k = (map_of m k \<noteq> None)"

definition hash_keys :: "(string \<times> ptr) list \<Rightarrow> string list" where
  "hash_keys m = map fst m"

text \<open>\<open>QVector::indexOf\<close>: the first index holding the value, or -1.\<close>

fun indexOf_from :: "'a \<Rightarrow> 'a list \<Rightarrow> int \<Rightarrow> int" where
  "indexOf_from x [] i = - 1"
| "indexOf_from x (y # ys) i = (if y = x then i else indexOf_from x ys (i + 1))"

subsection \<open>Bulk load bracket and row count\<close>

definition count :: "('ls, 'lane) RevisionsCache \<Rightarrow> int" where
  "count s = int (length (mCommits s))"

text \<open>
  \<open>beginCacheConfig\<close>: \<open>numElementsToStore + 1\<close> is an \<open>int\<close>; the sum overflowing and a
  negative size handed to \<open>QVector::resize\<close> are undefined. \<open>resize\<close> on the empty vector
  fills it with null pointers; \<open>reserve\<close> changes no content.
\<close>

definition beginCacheConfig ::
  "int \<Rightarrow> ('ls, 'lane) RevisionsCache \<Rightarrow> ('ls, 'lane) RevisionsCache option" where
  "beginCacheConfig numElementsToStore s =
     (if \<not> mCacheLocked s then
        (if mCommits s = [] then
           (if numElementsToStore + 1 < 0 \<or> 2 ^ 31 - 1 < numElementsToStore + 1 then None
            else Some (s\<lparr>mCommits := replicate (nat (numElementsToStore + 1)) None,
                         mCacheLocked := True\<rparr>))
         else Some (s\<lparr>mCacheLocked := True\<rparr>))
      else Some s)"

definition endCacheConfig :: "('ls, 'lane) RevisionsCache \<Rightarrow> ('ls, 'lane) RevisionsCache" where
  "endCacheConfig s = s\<lparr>mCacheLocked := False\<rparr>"

subsection \<open>Read operations\<close>

definition getCommitInfoByRow ::
  "int \<Rightarrow> ('ls, 'lane) RevisionsCache \<Rightarrow> 'lane CommitInfo option" where
  "getCommitInfoByRow row s =
     (if mCacheLocked s then Some CommitInfo_default
      else
        (let commit = (if 0 \<le> row \<and> row < count s then mCommits s ! nat row else None)
         in case commit of
              None \<Rightarrow> Some CommitInfo_default
            | Some a \<Rightarrow> deref (owned s) a))"

definition getCommitPos :: "string \<Rightarrow> ('ls, 'lane) RevisionsCache \<Rightarrow> int" where
  "getCommitPos sh s =
     (if mCacheLocked s then - 1
      else indexOf_from (hash_value (mCommitsMap s) sh) (mCommits s) 0)"

text \<open>
  \<open>searchCommit\<close> is \<open>std::find_if\<close> from \<open>constBegin() + startingPoint\<close>: the result is
  the row found, or the length of the vector for \<open>constEnd()\<close>. The predicate reads through
  every pointer it visits. \<open>getFieldStr\<close> belongs to \<open>CommitInfo\<close> and is a parameter
  over an arbitrary type of fields.
\<close>

fun find_if_from ::
  "'lane store \<Rightarrow> ('lane CommitInfo \<Rightarrow> bool) \<Rightarrow> ptr list \<Rightarrow> nat \<Rightarrow> nat option" where
  "find_if_from h pr [] i = Some i"
| "find_if_from h pr (p # ps) i =
     (case p of
        None \<Rightarrow> None
      | Some a \<Rightarrow>
          (case deref h a of
             None \<Rightarrow> None
           | Some c \<Rightarrow> if pr c then Some i else find_if_from h pr ps (Suc i)))"

definition searchCommit ::
  "('f \<Rightarrow> 'lane CommitInfo \<Rightarrow> string) \<Rightarrow> 'f \<Rightarrow> string \<Rightarrow> int \<Rightarrow>
   ('ls, 'lane) RevisionsCache \<Rightarrow> nat option" where
  "searchCommit getFieldStr field txt startingPoint s =
     (if startingPoint < 0 \<or> count s < startingPoint then None
      else find_if_from (owned s) (\<lambda>info. contains_str (getFieldStr field info) txt)
             (drop (nat startingPoint) (mCommits s)) (nat startingPoint))"

definition deref_row :: "('ls, 'lane) RevisionsCache \<Rightarrow> nat \<Rightarrow> 'lane CommitInfo option" where
  "deref_row s i = (case mCommits s ! i of None \<Rightarrow> None | Some a \<Rightarrow> deref (owned s) a)"

definition getCommitInfoByField ::
  "('f \<Rightarrow> 'lane CommitInfo \<Rightarrow> string) \<Rightarrow> 'f \<Rightarrow> string \<Rightarrow> int \<Rightarrow>
   ('ls, 'lane) RevisionsCache \<Rightarrow> 'lane CommitInfo option" where
  "getCommitInfoByField getFieldStr field txt startingPoint s =
     (if mCacheLocked s then Some CommitInfo_default
      else
        (case searchCommit getFieldStr field txt startingPoint s of
           None \<Rightarrow> None
         | Some i \<Rightarrow>
             (if i = length (mCommits s) \<and> startingPoint > 0 then
                (case searchCommit getFieldStr field txt 0 s of
                   None \<Rightarrow> None
                 | Some j \<Rightarrow>
                     if j \<noteq> length (mCommits s) then deref_row s j else Some CommitInfo_default)
              else if i \<noteq> length (mCommits s) then deref_row s i
              else Some CommitInfo_default)))"

definition getCommitInfo ::
  "string \<Rightarrow> ('ls, 'lane) RevisionsCache \<Rightarrow> 'lane CommitInfo option" where
  "getCommitInfo sh s =
     (if mCacheLocked s then Some CommitInfo_default
      else if sh \<noteq> [] then
        (case hash_value (mCommitsMap s) sh of
           None \<Rightarrow>
             (case find (\<lambda>shaToCompare. prefix sh shaToCompare) (hash_keys (mCommitsMap s)) of
                Some k \<Rightarrow>
                  (case hash_value (mCommitsMap s) k of
                     None \<Rightarrow> None
                   | Some a \<Rightarrow> deref (owned s) a)
              | None \<Rightarrow> Some CommitInfo_default)
         | Some a \<Rightarrow> deref (owned s) a)
      else Some CommitInfo_default)"

definition getRevisionFile ::
  "string \<Rightarrow> string \<Rightarrow> ('ls, 'lane) RevisionsCache \<Rightarrow> RevisionFiles" where
  "getRevisionFile sha1 sha2 s =
     (if mCacheLocked s then RevisionFiles_default
      else (case mRevisionFilesMap s (sha1, sha2) of
              None \<Rightarrow> RevisionFiles_default
            | Some f \<Rightarrow> f))"

definition containsRevisionFile ::
  "string \<Rightarrow> string \<Rightarrow> ('ls, 'lane) RevisionsCache \<Rightarrow> bool" where
  "containsRevisionFile sha1 sha2 s =
     (if mCacheLocked s then False else mRevisionFilesMap s (sha1, sha2) \<noteq> None)"

definition getLocalBranchDistances ::
  "string \<Rightarrow> ('ls, 'lane) RevisionsCache \<Rightarrow> LocalBranchDistances" where
  "getLocalBranchDistances name s =
     (if mCacheLocked s then LocalBranchDistances_default
      else (case mLocalBranchDistances s name of
              None \<Rightarrow> LocalBranchDistances_default
            | Some d \<Rightarrow> d))"

definition pendingLocalChanges :: "('ls, 'lane) RevisionsCache \<Rightarrow> bool option" where
  "pendingLocalChanges s =
     (if \<not> mCacheLocked s then
        (case hash_value (mCommitsMap s) ZERO_SHA of
           None \<Rightarrow> Some False
         | Some a \<Rightarrow>
             (case deref (owned s) a of
                None \<Rightarrow> None
              | Some commit \<Rightarrow>
                  Some (rf_count (getRevisionFile ZERO_SHA (parent 0 commit) s)
                        = length (mUntrackedfiles s))))
      else Some False)"

definition reference_entry ::
  "'lane store \<Rightarrow> RefType \<Rightarrow> ptr \<Rightarrow> (string \<times> string list) option" where
  "reference_entry h t p =
     (case p of
        None \<Rightarrow> None
      | Some a \<Rightarrow>
          (case deref h a of
             None \<Rightarrow> None
           | Some commit \<Rightarrow> Some (sha commit, getReferences commit t)))"

definition getBranches ::
  "RefType \<Rightarrow> ('ls, 'lane) RevisionsCache \<Rightarrow> (string \<times> string list) list option" where
  "getBranches t s =
     (if \<not> mCacheLocked s then those (map (reference_entry (owned s) t) (mReferences s))
      else Some [])"

definition getTags ::
  "('ls, 'lane) RevisionsCache \<Rightarrow> (string \<times> string list) list option" where
  "getTags s =
     (if \<not> mCacheLocked s then those (map (reference_entry (owned s) Tag) (mReferences s))
      else Some [])"

fun branch_scan :: "'lane store \<Rightarrow> string \<Rightarrow> RefType \<Rightarrow> ptr list \<Rightarrow> string option" where
  "branch_scan h branch t [] = Some []"
| "branch_scan h branch t (p # ps) =
     (case p of
        None \<Rightarrow> None
      | Some a \<Rightarrow>
          (case deref h a of
             None \<Rightarrow> None
           | Some commit \<Rightarrow>
               if branch \<in> set (getReferences commit t) then Some (sha commit)
               else branch_scan h branch t ps))"

definition getCommitForBranch ::
  "string \<Rightarrow> bool \<Rightarrow> ('ls, 'lane) RevisionsCache \<Rightarrow> string option" where
  "getCommitForBranch branch local s =
     (if \<not> mCacheLocked s then
        branch_scan (owned s) branch (if local then LocalBranch else RemoteBranches)
          (mReferences s)
      else Some [])"

subsection \<open>Mutations\<close>

text \<open>
  \<open>commit\<close> (the spec's \<open>appendCommit\<close>). \<open>QVector::insert(1, commit)\<close> needs a vector
  of at least one element. The parent is read through the pointer that the identifier index
  holds for \<open>c.parent(0)\<close>, after the new record has been indexed.

  The code reads \<open>c.sha()\<close> and \<open>c.parent(0)\<close> after \<open>new CommitInfo(std::move(c))\<close>.
  What \<open>c\<close> holds then is decided by the declaration of \<open>CommitInfo\<close>, which is not
  among the sources: the record as it was when the class falls back to copying, the emptied
  record when the class has a move constructor (a moved-from \<open>QString\<close> or \<open>QStringList\<close>
  is empty). The parameter \<open>after_move\<close> gives the record left in \<open>c\<close>.
\<close>

definition commit ::
  "('ls, 'lane) Lanes \<Rightarrow> ('lane CommitInfo \<Rightarrow> 'lane CommitInfo) \<Rightarrow> 'lane CommitInfo \<Rightarrow> string \<Rightarrow>
   ('ls, 'lane) RevisionsCache \<Rightarrow> ('ls, 'lane) RevisionsCache option" where
  "commit L after_move c0 localBranch s =
     (let c = setLanes (fst (calculateLanes L c0 (mLanes s))) c0;
          h1 = fst (new_CommitInfo c (owned s));
          cm = snd (new_CommitInfo c (owned s));
          c' = after_move c
      in if length (mCommits s) < 1 then None
         else
           (let m1 = AList.update (sha c) (Some cm) (mCommitsMap s);
                m2 = AList.update (sha c') (Some cm) m1
            in case hash_value m2 (parent 0 c') of
                 None \<Rightarrow> None
               | Some pa \<Rightarrow>
                   (case deref h1 pa of
                      None \<Rightarrow> None
                    | Some par \<Rightarrow>
                        (let h2 = (if localBranch \<in> set (getReferences par LocalBranch)
                                   then assign pa (removeReference LocalBranch localBranch par) h1
                                   else h1)
                         in case deref h2 cm of
                              None \<Rightarrow> None
                            | Some new \<Rightarrow>
                                Some (s\<lparr>mCommits := take 1 (mCommits s) @ Some cm # drop 1 (mCommits s),
                                        mCommitsMap := m2,
                                        mLanes := snd (calculateLanes L c0 (mLanes s)),
                                        owned := assign cm (addReference LocalBranch localBranch new) h2\<rparr>)))))"

text \<open>
  \<open>insertCommitInfo\<close> (the spec's \<open>insertCommit\<close>). \<open>mCommits[orderIdx]\<close> with a negative
  index is out of range, and comparing with the record of a slot reads through its pointer.
  When the slot already holds an equal record the vector keeps the old pointer, and the
  index still receives the new one.
\<close>

definition insertCommitInfo ::
  "('ls, 'lane) Lanes \<Rightarrow> 'lane CommitInfo \<Rightarrow> int \<Rightarrow>
   ('ls, 'lane) RevisionsCache \<Rightarrow> ('ls, 'lane) RevisionsCache option" where
  "insertCommitInfo L rev0 orderIdx s =
     (if mCacheLocked s then
        (if hash_contains (mCommitsMap s) (sha rev0) then Some s
         else
           (let rev = setLanes (fst (calculateLanes L rev0 (mLanes s))) rev0;
                h1 = fst (new_CommitInfo rev (owned s));
                cm = snd (new_CommitInfo rev (owned s));
                placed =
                  (if orderIdx \<ge> count s then Some (mCommits s @ [Some cm], h1)
                   else if orderIdx < 0 then None
                   else
                     (case mCommits s ! nat orderIdx of
                        None \<Rightarrow> Some ((mCommits s)[nat orderIdx := Some cm], h1)
                      | Some old \<Rightarrow>
                          (case deref h1 old of
                             None \<Rightarrow> None
                           | Some existing \<Rightarrow>
                               if existing = rev then Some (mCommits s, h1)
                               else Some ((mCommits s)[nat orderIdx := Some cm],
                                          delete_CommitInfo old h1))))
            in case placed of
                 None \<Rightarrow> None
               | Some (commits', h2) \<Rightarrow>
                   (let m1 = AList.update (sha rev) (Some cm) (mCommitsMap s);
                        m2 = (if hash_contains m1 (parent 0 rev)
                              then AList.delete (parent 0 rev) m1 else m1)
                    in Some (s\<lparr>mCommits := commits', mCommitsMap := m2,
                               mLanes := snd (calculateLanes L rev0 (mLanes s)),
                               owned := h2\<rparr>))))
      else Some s)"

definition insertRevisionFile ::
  "string \<Rightarrow> string \<Rightarrow> RevisionFiles \<Rightarrow> ('ls, 'lane) RevisionsCache \<Rightarrow>
   bool \<times> ('ls, 'lane) RevisionsCache" where
  "insertRevisionFile sha1 sha2 file s =
     (if mCacheLocked s then (False, s)
      else if sha1 \<noteq> [] \<and> sha2 \<noteq> []
              \<and> (case mRevisionFilesMap s (sha1, sha2) of
                    None \<Rightarrow> RevisionFiles_default
                  | Some f \<Rightarrow> f) \<noteq> file
      then (True, s\<lparr>mRevisionFilesMap := (mRevisionFilesMap s)((sha1, sha2) \<mapsto> file)\<rparr>)
      else (False, s))"

text \<open>
  \<open>insertReference\<close>: \<open>mCommitsMap[sha]\<close> enters the key with a null pointer when the
  identifier is not indexed.
\<close>

definition insertReference ::
  "string \<Rightarrow> RefType \<Rightarrow> string \<Rightarrow>
   ('ls, 'lane) RevisionsCache \<Rightarrow> ('ls, 'lane) RevisionsCache option" where
  "insertReference sh t reference s =
     (if mCacheLocked s then
        (let m1 = (if hash_contains (mCommitsMap s) sh then mCommitsMap s
                   else AList.update sh None (mCommitsMap s))
         in case hash_value m1 sh of
              None \<Rightarrow> Some (s\<lparr>mCommitsMap := m1\<rparr>)
            | Some a \<Rightarrow>
                (case deref (owned s) a of
                   None \<Rightarrow> None
                 | Some c \<Rightarrow>
                     Some (s\<lparr>mCommitsMap := m1,
                             mReferences := (if Some a \<in> set (mReferences s) then mReferences s
                                             else mReferences s @ [Some a]),
                             owned := assign a (addReference t reference c) (owned s)\<rparr>)))
      else Some s)"

definition insertLocalBranchDistances ::
  "string \<Rightarrow> LocalBranchDistances \<Rightarrow>
   ('ls, 'lane) RevisionsCache \<Rightarrow> ('ls, 'lane) RevisionsCache" where
  "insertLocalBranchDistances name distances s =
     (if mCacheLocked s
      then s\<lparr>mLocalBranchDistances := (mLocalBranchDistances s)(name \<mapsto> distances)\<rparr>
      else s)"

definition setUntrackedFilesList ::
  "string list \<Rightarrow> ('ls, 'lane) RevisionsCache \<Rightarrow> ('ls, 'lane) RevisionsCache" where
  "setUntrackedFilesList untrackedFiles s = s\<lparr>mUntrackedfiles := untrackedFiles\<rparr>"

section \<open>Diff-Summary Parser: the extended-status path\<close>

text \<open>
  \<open>FileNamesLoader\<close> stages directory and file name indices for the \<open>RevisionFiles\<close>
  object that \<open>rf\<close> points to. The objects under construction live in a map from addresses;
  the parser state bundles them with the two name pools of the cache and the loader.
\<close>

record FileNamesLoader =
  fl_rf :: "nat option"
  rfDirs :: "nat list"
  rfNames :: "nat list"
  files :: "string list"

definition FileNamesLoader_new :: FileNamesLoader where
  "FileNamesLoader_new = \<lparr>fl_rf = None, rfDirs = [], rfNames = [], files = []\<rparr>"

record parser =
  dirNames :: "string list"
  fileNames :: "string list"
  objs :: "nat \<rightharpoonup> RevisionFiles"
  fl :: FileNamesLoader

definition lastIndexOf :: "char \<Rightarrow> string \<Rightarrow> int" where
  "lastIndexOf c s =
     (case find (\<lambda>i. s ! i = c) (rev [0..<length s]) of None \<Rightarrow> - 1 | Some i \<Rightarrow> int i)"

definition pool_index :: "string \<Rightarrow> string list \<Rightarrow> string list \<times> nat" where
  "pool_index x pool =
     (if indexOf_from x pool 0 = - 1 then (pool @ [x], length pool)
      else (pool, nat (indexOf_from x pool 0)))"

definition appendFileName :: "string \<Rightarrow> parser \<Rightarrow> parser" where
  "appendFileName name ps =
     (let idx = nat (lastIndexOf (CHR ''/'') name + 1);
          dr = take idx name;
          nm = drop idx name;
          d = pool_index dr (dirNames ps);
          n = pool_index nm (fileNames ps)
      in ps\<lparr>dirNames := fst d, fileNames := fst n,
             fl := (fl ps)\<lparr>rfDirs := rfDirs (fl ps) @ [snd d],
                             rfNames := rfNames (fl ps) @ [snd n],
                             files := files (fl ps) @ [name]\<rparr>\<rparr>)"

fun flush_loop ::
  "string list \<Rightarrow> string list \<Rightarrow> nat list \<Rightarrow> nat list \<Rightarrow> string list \<Rightarrow> string list option" where
  "flush_loop dirs names ds [] acc = Some acc"
| "flush_loop dirs names [] (n # ns) acc = None"
| "flush_loop dirs names (d # ds) (n # ns) acc =
     (if d < length dirs \<and> n < length names then
        flush_loop dirs names ds ns
          (if (dirs ! d @ names ! n) \<in> set acc then acc else acc @ [dirs ! d @ names ! n])
      else None)"

definition flushFileNames :: "parser \<Rightarrow> parser option" where
  "flushFileNames ps =
     (case fl_rf (fl ps) of
        None \<Rightarrow> Some ps
      | Some r \<Rightarrow>
          (case objs ps r of
             None \<Rightarrow> None
           | Some rf \<Rightarrow>
               (case flush_loop (dirNames ps) (fileNames ps) (rfDirs (fl ps)) (rfNames (fl ps))
                       (mFiles rf) of
                  None \<Rightarrow> None
                | Some fs \<Rightarrow>
                    Some (ps\<lparr>objs := (objs ps)(r \<mapsto> rf\<lparr>mFiles := fs\<rparr>),
                            fl := (fl ps)\<lparr>rfNames := [], rfDirs := [], fl_rf := None\<rparr>\<rparr>))))"

text \<open>The recurring block \<open>if (fl.rf != &rf) { flushFileNames(fl); fl.rf = &rf; }\<close>.\<close>

definition retarget :: "nat \<Rightarrow> parser \<Rightarrow> parser option" where
  "retarget r ps =
     (if fl_rf (fl ps) \<noteq> Some r then
        (case flushFileNames ps of
           None \<Rightarrow> None
         | Some ps1 \<Rightarrow> Some (ps1\<lparr>fl := (fl ps1)\<lparr>fl_rf := Some r\<rparr>\<rparr>))
      else Some ps)"

text \<open>
  One synthesized entry of \<open>setExtStatus\<close>: the file name is staged, then the parent
  number, the status and the annotation are appended to the object at \<open>r\<close>.
\<close>

definition add_entry :: "nat \<Rightarrow> string \<Rightarrow> int \<Rightarrow> StatusFlag \<Rightarrow> string \<Rightarrow> parser \<Rightarrow> parser option" where
  "add_entry r name parNum flag info ps =
     (case retarget r ps of
        None \<Rightarrow> None
      | Some ps1 \<Rightarrow>
          (let ps2 = appendFileName name ps1
           in case objs ps2 r of
                None \<Rightarrow> None
              | Some rf \<Rightarrow>
                  Some (ps2\<lparr>objs := (objs ps2)(r \<mapsto>
                          appendExtStatus info
                            (setStatus flag (rf\<lparr>mergeParent := mergeParent rf @ [parNum]\<rparr>)))\<rparr>)))"

definition setExtStatus :: "nat \<Rightarrow> string \<Rightarrow> int \<Rightarrow> parser \<Rightarrow> parser option" where
  "setExtStatus r rowSt parNum ps =
     (let sl = split_skip_empty (CHR 0x09) rowSt
      in if length sl \<noteq> 3 then Some ps
         else
           (let type = drop 1 (sl ! 0);
                orig = sl ! 1;
                dest = sl ! 2;
                extStatusInfo = orig @ '' --> '' @ dest @ '' ('' @ number_str (toInt type) @ ''%)''
            in case add_entry r dest parNum NEW extStatusInfo ps of
                 None \<Rightarrow> None
               | Some ps1 \<Rightarrow>
                   (if type = [] then None
                    else
                      (case (if hd type = CHR ''R''
                             then add_entry r orig parNum DELETED extStatusInfo ps1
                             else Some ps1) of
                         None \<Rightarrow> None
                       | Some ps2 \<Rightarrow>
                           (case objs ps2 r of
                              None \<Rightarrow> None
                            | Some rf \<Rightarrow>
                                Some (ps2\<lparr>objs := (objs ps2)(r \<mapsto> setOnlyModified False rf)\<rparr>))))))"

text \<open>
  The extended-status path run alone on a fresh loader and an empty record at address 0,
  closed the way \<open>parseDiff\<close> closes a parse: \<open>fl.rf = &rf; flushFileNames(fl)\<close>.
\<close>

definition parser_new :: "string list \<Rightarrow> string list \<Rightarrow> parser" where
  "parser_new dirs names =
     \<lparr>dirNames = dirs, fileNames = names, objs = [0 \<mapsto> RevisionFiles_default],
      fl = FileNamesLoader_new\<rparr>"

definition parse_ext_line :: "string \<Rightarrow> RevisionFiles option" where
  "parse_ext_line rowSt =
     (case setExtStatus 0 rowSt 1 (parser_new [] []) of
        None \<Rightarrow> None
      | Some ps \<Rightarrow>
          (case flushFileNames (ps\<lparr>fl := (fl ps)\<lparr>fl_rf := Some 0\<rparr>\<rparr>) of
             None \<Rightarrow> None
           | Some ps1 \<Rightarrow> objs ps1 0))"

section \<open>Concrete inputs\<close>

text \<open>
  The cache as its constructor leaves it, for an engine state \<open>ls\<close>, and a small engine to
  run the cache on concrete inputs: its state counts the commits it has seen and its
  snapshot is the single marker holding that count.
\<close>

definition RevisionsCache_new :: "'ls \<Rightarrow> ('ls, 'lane) RevisionsCache" where
  "RevisionsCache_new ls =
     \<lparr>mCacheLocked = False, mCommits = [], mCommitsMap = [], mRevisionFilesMap = Map.empty,
      mReferences = [], mLocalBranchDistances = Map.empty, mLanes = ls, mDirNames = [],
      mFileNames = [], mUntrackedfiles = [], owned = []\<rparr>"

definition counting_Lanes :: "(nat, nat) Lanes" where
  "counting_Lanes =
     \<lparr>isFork = (\<lambda>s l. (False, False)), changeActiveLane = (\<lambda>s l. l), setFork = (\<lambda>s l. l),
      setMerge = (\<lambda>ps l. l), setInitial = (\<lambda>l. l), getLanes = (\<lambda>l. [l]),
      nextParent = (\<lambda>s l. Suc l), afterMerge = (\<lambda>l. l), afterFork = (\<lambda>l. l),
      isBranch = (\<lambda>l. False), afterBranch = (\<lambda>l. l)\<rparr>"

definition mk_commit :: "string \<Rightarrow> string list \<Rightarrow> string \<Rightarrow> nat CommitInfo" where
  "mk_commit sh ps au =
     \<lparr>sha = sh, parents = ps, author = au, authorDate = 1600000000, shortLog = ''subject'',
      longLog = ''body'', refs = Map.empty, lanes = []\<rparr>"

text \<open>
  A bulk load as a loader runs it: the bracket \<open>beginCacheConfig\<close> \<dots> \<open>endCacheConfig\<close>
  around one \<open>insertCommitInfo\<close> per record, each with its position hint.
\<close>

fun insert_all ::
  "('ls, 'lane) Lanes \<Rightarrow> ('lane CommitInfo \<times> int) list \<Rightarrow>
   ('ls, 'lane) RevisionsCache \<Rightarrow> ('ls, 'lane) RevisionsCache option" where
  "insert_all L [] s = Some s"
| "insert_all L (ri # rest) s =
     (case insertCommitInfo L (fst ri) (snd ri) s of
        None \<Rightarrow> None
      | Some s' \<Rightarrow> insert_all L rest s')"

definition bulk_load ::
  "('ls, 'lane) Lanes \<Rightarrow> int \<Rightarrow> ('lane CommitInfo \<times> int) list \<Rightarrow>
   ('ls, 'lane) RevisionsCache \<Rightarrow> ('ls, 'lane) RevisionsCache option" where
  "bulk_load L expectedCount revs s =
     (case beginCacheConfig expectedCount s of
        None \<Rightarrow> None
      | Some s1 \<Rightarrow> map_option endCacheConfig (insert_all L revs s1))"

text \<open>
  Three states: a cold cache inside a bulk load sized for two commits; an unlocked cache
  of three rows whose records are all indexed; an unlocked cache holding the
  working-directory pseudo-commit with its file-change record and one untracked file.
\<close>

definition loading_cache :: "(nat, nat) RevisionsCache" where
  "loading_cache = (RevisionsCache_new 0)\<lparr>mCacheLocked := True, mCommits := [None, None, None]\<rparr>"

definition three_rows :: "nat CommitInfo list" where
  "three_rows =
     [addReference LocalBranch ''master'' (mk_commit ''abc123'' [''abd999''] ''ann''),
      mk_commit ''abd999'' [''ffe000''] ''bob'',
      mk_commit ''ffe000'' [] ''bobby'']"

definition loaded_cache :: "(nat, nat) RevisionsCache" where
  "loaded_cache =
     (RevisionsCache_new 3)\<lparr>mCommits := [Some 0, Some 1, Some 2],
        mCommitsMap := [(''abc123'', Some 0), (''abd999'', Some 1), (''ffe000'', Some 2)],
        owned := map Some three_rows\<rparr>"

definition wip_files :: RevisionFiles where
  "wip_files = \<lparr>mFiles = [''notes.txt''], mergeParent = [1], mFileStatus = [{UNKNOWN}],
                 mRenamedFiles = [], mOnlyModified = False\<rparr>"

definition wip_cache :: "(nat, nat) RevisionsCache" where
  "wip_cache =
     (RevisionsCache_new 1)\<lparr>mCommits := [Some 0],
        mCommitsMap := [(ZERO_SHA, Some 0)],
        mRevisionFilesMap := [(ZERO_SHA, ''abc123'') \<mapsto> wip_files],
        mUntrackedfiles := [''notes.txt''],
        owned := [Some (mk_commit ZERO_SHA [''abc123''] ''-'')]\<rparr>"

definition pick_field :: "bool \<Rightarrow> nat CommitInfo \<Rightarrow> string" where
  "pick_field by_author c = (if by_author then author c else shortLog c)"

text \<open>
  An unlocked cache whose row 1 is the tip of the local branch \<open>master\<close>; row 0 waits for
  the working-directory pseudo-commit.
\<close>

definition tip_cache :: "(nat, nat) RevisionsCache" where
  "tip_cache =
     (RevisionsCache_new 1)\<lparr>mCommits := [None, Some 0],
        mCommitsMap := [(''abc123'', Some 0)],
        owned := [Some (addReference LocalBranch ''master''
                          (mk_commit ''abc123'' [''abd999''] ''ann''))]\<rparr>"

text \<open>
  Sound rows: the non-null pointers of the position index are pairwise distinct and
  each leads to a live record. The constructor gives such a state, and
  \<open>beginCacheConfig\<close>, \<open>endCacheConfig\<close>, \<open>insertCommitInfo\<close>, \<open>insertReference\<close> and
  \<open>commit\<close> keep it.
\<close>

definition sound_rows :: "ptr list \<Rightarrow> 'lane store \<Rightarrow> bool" where
  "sound_rows cs st =
     (distinct (filter (\<lambda>p. p \<noteq> None) cs)
      \<and> list_all (\<lambda>p. case p of None \<Rightarrow> True | Some a \<Rightarrow> deref st a \<noteq> None) cs)"

definition rows_sound :: "('ls, 'lane) RevisionsCache \<Rightarrow> bool" where
  "rows_sound s = sound_rows (mCommits s) (owned s)"

text \<open>
  The record left in \<open>c\<close> by \<open>new CommitInfo(std::move(c))\<close> when \<open>CommitInfo\<close> is
  movable: the strings, lists and maps it held are empty, the timestamp is copied.
\<close>

definition moved_from :: "'lane CommitInfo \<Rightarrow> 'lane CommitInfo" where
  "moved_from c =
     c\<lparr>sha := [], parents := [], author := [], shortLog := [], longLog := [],
       refs := Map.empty, lanes := []\<rparr>"



section \<open>Properties\<close>

subsection \<open>The store and the identifier index\<close>

lemma deref_new [simp]:
  "deref (fst (new_CommitInfo c h)) (snd (new_CommitInfo c h)) = Some c"
  by (simp add: deref_def new_CommitInfo_def)

lemma deref_new_old:
  "deref h a = Some x \<Longrightarrow> deref (fst (new_CommitInfo c h)) a = Some x"
  by (auto simp: deref_def new_CommitInfo_def nth_append split: if_splits)

lemma deref_live_not_new:
  "deref h a = Some x \<Longrightarrow> a \<noteq> snd (new_CommitInfo c h)"
  by (auto simp: deref_def new_CommitInfo_def split: if_splits)

lemma deref_assign_same:
  "deref h a = Some x \<Longrightarrow> deref (assign a c h) a = Some c"
  by (auto simp: deref_def assign_def split: if_splits)

lemma deref_assign_other:
  "a \<noteq> b \<Longrightarrow> deref (assign a c h) b = deref h b"
  by (auto simp: deref_def assign_def)

lemma deref_delete_other:
  "a \<noteq> b \<Longrightarrow> deref (delete_CommitInfo a h) b = deref h b"
  by (auto simp: deref_def delete_CommitInfo_def)

lemma hash_value_update:
  "hash_value (AList.update k v m) k' = (if k' = k then v else hash_value m k')"
  by (simp add: hash_value_def update_conv')

lemma hash_value_delete:
  "hash_value (AList.delete k m) k' = (if k' = k then None else hash_value m k')"
  by (simp add: hash_value_def delete_conv')

lemma hash_contains_update:
  "hash_contains (AList.update k v m) k' = (k' = k \<or> hash_contains m k')"
  by (simp add: hash_contains_def update_conv')

lemma hash_value_absent:
  "\<not> hash_contains m k \<Longrightarrow> hash_value m k = None"
  by (simp add: hash_contains_def hash_value_def)

lemma getCommitInfo_indexed:
  assumes "\<not> mCacheLocked s" and "sh \<noteq> []"
    and "hash_value (mCommitsMap s) sh = Some a" and "deref (owned s) a = Some c"
  shows "getCommitInfo sh s = Some c"
  using assms by (simp add: getCommitInfo_def)

lemma getCommitInfoByRow_slot:
  assumes "\<not> mCacheLocked s" and "i < length (mCommits s)"
    and "mCommits s ! i = Some a" and "deref (owned s) a = Some c"
  shows "getCommitInfoByRow (int i) s = Some c"
  using assms by (simp add: getCommitInfoByRow_def count_def)

lemmas run_defs = insertCommitInfo_def insertReference_def loading_cache_def RevisionsCache_new_def
  hash_contains_def hash_value_def hash_keys_def count_def calculateLanes_def resetLanes_def
  counting_Lanes_def new_CommitInfo_def delete_CommitInfo_def deref_def mk_commit_def
  setLanes_def parent_def parentsCount_def endCacheConfig_def getCommitInfo_def
  CommitInfo_default_def Let_def

lemma deref_live_bound: "deref h a = Some c \<Longrightarrow> a < length h"
  by (simp add: deref_def split: if_splits)

lemma deref_append_new: "deref (h @ [Some c]) (length h) = Some c"
  by (simp add: deref_def)

lemma deref_append_old: "deref h a = Some x \<Longrightarrow> deref (h @ [y]) a = Some x"
  by (auto simp: deref_def nth_append split: if_splits)

lemma deref_update_other: "a \<noteq> b \<Longrightarrow> deref (h[a := v]) b = deref h b"
  by (simp add: deref_def)

lemma hash_value_contains: "hash_value m k = Some b \<Longrightarrow> hash_contains m k"
  by (auto simp: hash_value_def hash_contains_def split: option.splits)

subsection \<open>Sound rows\<close>

lemma distinct_filter_nth:
  "distinct (filter P xs) \<Longrightarrow> i < length xs \<Longrightarrow> j < length xs \<Longrightarrow> xs ! i = xs ! j
   \<Longrightarrow> P (xs ! i) \<Longrightarrow> i = j"
proof (induction xs arbitrary: i j)
  case Nil
  then show ?case by simp
next
  case (Cons x xs)
  show ?case
  proof (cases i)
    case 0
    show ?thesis
    proof (cases j)
      case 0
      with \<open>i = 0\<close> show ?thesis by simp
    next
      case (Suc j')
      with Cons.prems 0 have "x = xs ! j'" "P x" "j' < length xs" by simp_all
      then have "x \<in> set (filter P xs)" by simp
      with Cons.prems(1) \<open>P x\<close> show ?thesis by simp
    qed
  next
    case (Suc i')
    show ?thesis
    proof (cases j)
      case 0
      with Cons.prems Suc have "x = xs ! i'" "P x" "i' < length xs" by simp_all
      then have "x \<in> set (filter P xs)" by simp
      with Cons.prems(1) \<open>P x\<close> show ?thesis by simp
    next
      case (Suc j')
      have "distinct (filter P xs)" using Cons.prems(1) by (simp split: if_splits)
      with Cons.IH [of i' j'] Cons.prems \<open>i = Suc i'\<close> Suc show ?thesis by simp
    qed
  qed
qed

lemma distinct_filter_update:
  "distinct (filter P xs) \<Longrightarrow> x \<notin> set xs \<Longrightarrow> distinct (filter P (xs[i := x]))"
proof (induction xs arbitrary: i)
  case Nil
  then show ?case by simp
next
  case (Cons y ys)
  show ?case
  proof (cases i)
    case 0
    with Cons.prems show ?thesis by (auto split: if_splits)
  next
    case (Suc i')
    have d: "distinct (filter P ys)" using Cons.prems(1) by (simp split: if_splits)
    have "distinct (filter P (ys[i' := x]))" using Cons.IH [OF d] Cons.prems(2) by simp
    moreover have "y \<notin> set (filter P (ys[i' := x]))" if "P y"
    proof -
      have "y \<notin> set (filter P ys)" using Cons.prems(1) that by simp
      moreover have "set (ys[i' := x]) \<subseteq> insert x (set ys)" by (rule set_update_subset_insert)
      moreover have "y \<noteq> x" using Cons.prems(2) by auto
      ultimately show ?thesis using that by auto
    qed
    ultimately show ?thesis using Suc by simp
  qed
qed

lemma sound_rows_nth:
  "sound_rows cs st \<Longrightarrow> n < length cs \<Longrightarrow> cs ! n = Some x \<Longrightarrow> \<exists>c. deref st x = Some c"
  by (auto simp: sound_rows_def list_all_length split: option.splits)

lemma sound_rows_unique:
  "sound_rows cs st \<Longrightarrow> i < length cs \<Longrightarrow> j < length cs \<Longrightarrow> cs ! i = Some x
   \<Longrightarrow> cs ! j = Some x \<Longrightarrow> i = j"
  using distinct_filter_nth [of "\<lambda>p. p \<noteq> None" cs i j] by (simp add: sound_rows_def)

lemma sound_rows_fresh:
  assumes "sound_rows cs st"
  shows "Some (length st) \<notin> set cs"
proof
  assume "Some (length st) \<in> set cs"
  with assms have "deref st (length st) \<noteq> None"
    by (auto simp: sound_rows_def list_all_iff)
  then show False by (simp add: deref_def)
qed

lemma sound_rows_store_grows:
  assumes "sound_rows cs st"
  shows "sound_rows cs (st @ [y])"
  using assms
  by (auto simp: sound_rows_def list_all_iff deref_def nth_append split: option.splits)

lemma sound_rows_append:
  assumes "sound_rows cs st"
  shows "sound_rows (cs @ [Some (length st)]) (st @ [Some c])"
  using sound_rows_store_grows [OF assms, of "Some c"] sound_rows_fresh [OF assms]
  by (auto simp: sound_rows_def deref_def)

lemma sound_rows_overwrite_null:
  assumes "sound_rows cs st" and "n < length cs" and "cs ! n = None"
  shows "sound_rows (cs[n := Some (length st)]) (st @ [Some c])"
proof -
  have g: "sound_rows cs (st @ [Some c])" using assms(1) by (rule sound_rows_store_grows)
  have d: "distinct (filter (\<lambda>p. p \<noteq> None) (cs[n := Some (length st)]))"
    using assms(1) sound_rows_fresh [OF assms(1)]
    by (intro distinct_filter_update) (simp_all add: sound_rows_def)
  have "case cs[n := Some (length st)] ! m of None \<Rightarrow> True
        | Some a \<Rightarrow> deref (st @ [Some c]) a \<noteq> None"
    if "m < length cs" for m
  proof (cases "m = n")
    case True
    then show ?thesis using that by (simp add: deref_def)
  next
    case False
    then show ?thesis
      using g that by (auto simp: sound_rows_def list_all_length split: option.splits)
  qed
  then show ?thesis using d by (simp add: sound_rows_def list_all_length)
qed

lemma sound_rows_overwrite_delete:
  assumes "sound_rows cs st" and "n < length cs" and "cs ! n = Some old"
  shows "sound_rows (cs[n := Some (length st)]) ((st @ [Some c])[old := None])"
proof -
  have g: "sound_rows cs (st @ [Some c])" using assms(1) by (rule sound_rows_store_grows)
  obtain e where "deref st old = Some e" using sound_rows_nth [OF assms] by blast
  then have bound: "old < length st" by (rule deref_live_bound)
  have d: "distinct (filter (\<lambda>p. p \<noteq> None) (cs[n := Some (length st)]))"
    using assms(1) sound_rows_fresh [OF assms(1)]
    by (intro distinct_filter_update) (simp_all add: sound_rows_def)
  have "case cs[n := Some (length st)] ! m of None \<Rightarrow> True
        | Some a \<Rightarrow> deref ((st @ [Some c])[old := None]) a \<noteq> None"
    if m: "m < length cs" for m
  proof (cases "m = n")
    case True
    then show ?thesis using m bound by (simp add: deref_def)
  next
    case False
    show ?thesis
    proof (cases "cs ! m")
      case None
      then show ?thesis using False by simp
    next
      case (Some x)
      have "x \<noteq> old" using sound_rows_unique [OF assms(1) m assms(2) Some] assms(3) False by auto
      moreover obtain cx where "deref (st @ [Some c]) x = Some cx"
        using sound_rows_nth [OF g m Some] by blast
      ultimately show ?thesis using False Some by (simp add: deref_update_other)
    qed
  qed
  then show ?thesis using d by (simp add: sound_rows_def list_all_length)
qed

lemma sound_rows_assign:
  assumes "sound_rows cs st"
  shows "sound_rows cs (assign a c st)"
proof -
  have "deref (assign a c st) x \<noteq> None" if "deref st x \<noteq> None" for x
    using that by (cases "x = a") (auto simp: deref_def assign_def split: if_splits)
  then show ?thesis
    using assms by (auto simp: sound_rows_def list_all_iff split: option.splits)
qed

lemma sound_rows_insert_row:
  assumes "sound_rows cs st"
  shows "sound_rows (take n cs @ Some (length st) # drop n cs) (st @ [Some c])"
proof -
  have g: "sound_rows cs (st @ [Some c])" using assms by (rule sound_rows_store_grows)
  have f: "Some (length st) \<notin> set cs" using assms by (rule sound_rows_fresh)
  have parts: "filter (\<lambda>p. p \<noteq> None) cs
               = filter (\<lambda>p. p \<noteq> None) (take n cs) @ filter (\<lambda>p. p \<noteq> None) (drop n cs)"
    by (metis append_take_drop_id filter_append)
  have "distinct (filter (\<lambda>p. p \<noteq> None) cs)" using assms by (simp add: sound_rows_def)
  then have "distinct (filter (\<lambda>p. p \<noteq> None) (take n cs) @ filter (\<lambda>p. p \<noteq> None) (drop n cs))"
    by (simp only: parts)
  moreover have "Some (length st) \<notin> set (take n cs)" "Some (length st) \<notin> set (drop n cs)"
    using f by (auto dest: in_set_takeD in_set_dropD)
  ultimately have d: "distinct (filter (\<lambda>p. p \<noteq> None) (take n cs @ Some (length st) # drop n cs))"
    by auto
  have "\<forall>p\<in>set cs. case p of None \<Rightarrow> True | Some a \<Rightarrow> deref (st @ [Some c]) a \<noteq> None"
    using g by (simp add: sound_rows_def list_all_iff)
  then have "\<forall>p\<in>set (take n cs @ Some (length st) # drop n cs).
               case p of None \<Rightarrow> True | Some a \<Rightarrow> deref (st @ [Some c]) a \<noteq> None"
    by (auto simp: deref_def dest: in_set_takeD in_set_dropD)
  with d show ?thesis by (simp add: sound_rows_def list_all_iff)
qed

lemma rows_sound_live:
  "rows_sound s \<Longrightarrow> i < length (mCommits s) \<Longrightarrow> mCommits s ! i = Some a
   \<Longrightarrow> \<exists>c. deref (owned s) a = Some c"
  by (auto simp: rows_sound_def sound_rows_def list_all_length split: option.splits)

lemma rows_sound_unique:
  "rows_sound s \<Longrightarrow> i < length (mCommits s) \<Longrightarrow> j < length (mCommits s)
   \<Longrightarrow> mCommits s ! i = Some a \<Longrightarrow> mCommits s ! j = Some a \<Longrightarrow> i = j"
  using distinct_filter_nth [of "\<lambda>p. p \<noteq> None" "mCommits s" i j]
  by (simp add: rows_sound_def sound_rows_def)

text \<open>The three ways an insert of a fresh identifier places the record.\<close>

lemma insertCommitInfo_effect:
  assumes locked: "mCacheLocked s"
    and fresh: "\<not> hash_contains (mCommitsMap s) (sha r)"
    and sound: "rows_sound s"
    and hint: "0 \<le> h"
  shows "\<exists>cs st.
      insertCommitInfo L r h s
      = Some (s\<lparr>mCommits := cs,
                mCommitsMap :=
                  (if hash_contains (AList.update (sha r) (Some (length (owned s))) (mCommitsMap s))
                        (parent 0 r)
                   then AList.delete (parent 0 r)
                          (AList.update (sha r) (Some (length (owned s))) (mCommitsMap s))
                   else AList.update (sha r) (Some (length (owned s))) (mCommitsMap s)),
                mLanes := snd (calculateLanes L r (mLanes s)),
                owned := st\<rparr>)
    \<and> ((count s \<le> h \<and> cs = mCommits s @ [Some (length (owned s))]
          \<and> st = owned s @ [Some (setLanes (fst (calculateLanes L r (mLanes s))) r)])
       \<or> (h < count s \<and> cs = mCommits s
          \<and> st = owned s @ [Some (setLanes (fst (calculateLanes L r (mLanes s))) r)]
          \<and> (\<exists>old. mCommits s ! nat h = Some old
                \<and> deref (owned s) old = Some (setLanes (fst (calculateLanes L r (mLanes s))) r)))
       \<or> (h < count s \<and> cs = (mCommits s)[nat h := Some (length (owned s))]
          \<and> mCommits s ! nat h = None
          \<and> st = owned s @ [Some (setLanes (fst (calculateLanes L r (mLanes s))) r)])
       \<or> (h < count s \<and> cs = (mCommits s)[nat h := Some (length (owned s))]
          \<and> (\<exists>old. mCommits s ! nat h = Some old \<and> old < length (owned s)
                \<and> st = (owned s @ [Some (setLanes (fst (calculateLanes L r (mLanes s))) r)])
                         [old := None])))"
proof -
  let ?rev = "setLanes (fst (calculateLanes L r (mLanes s))) r"
  have sha_rev: "sha ?rev = sha r" and par_rev: "parent 0 ?rev = parent 0 r"
    by (simp_all add: setLanes_def parent_def)
  let ?h1 = "owned s @ [Some ?rev]"
  let ?cm = "length (owned s)"
  show ?thesis
  proof (cases "count s \<le> h")
    case True
    show ?thesis
      by (rule exI [of _ "mCommits s @ [Some ?cm]"], rule exI [of _ ?h1])
        (use locked fresh True in
          \<open>simp add: insertCommitInfo_def Let_def new_CommitInfo_def sha_rev par_rev\<close>)
  next
    case False
    then have i: "nat h < length (mCommits s)" using hint by (simp add: count_def)
    show ?thesis
    proof (cases "mCommits s ! nat h")
      case None
      show ?thesis
        by (rule exI [of _ "(mCommits s)[nat h := Some ?cm]"], rule exI [of _ ?h1])
          (use locked fresh False hint None in
            \<open>simp add: insertCommitInfo_def Let_def new_CommitInfo_def sha_rev par_rev\<close>)
    next
      case (Some old)
      from rows_sound_live [OF sound i Some] obtain existing
        where ex: "deref (owned s) old = Some existing" ..
      then have ex1: "deref ?h1 old = Some existing"
        by (rule deref_append_old)
      have bound: "old < length (owned s)" using ex by (rule deref_live_bound)
      show ?thesis
      proof (cases "existing = ?rev")
        case True
        show ?thesis
          by (rule exI [of _ "mCommits s"], rule exI [of _ ?h1])
            (use locked fresh False hint Some ex ex1 True in
              \<open>simp add: insertCommitInfo_def Let_def new_CommitInfo_def sha_rev par_rev\<close>)
      next
        case neq: False
        show ?thesis
          by (rule exI [of _ "(mCommits s)[nat h := Some ?cm]"], rule exI [of _ "?h1[old := None]"])
            (use locked fresh False hint Some ex1 bound neq in
              \<open>simp add: insertCommitInfo_def Let_def new_CommitInfo_def delete_CommitInfo_def
                sha_rev par_rev\<close>)
      qed
    qed
  qed
qed

text \<open>Where an insert of a fresh identifier leaves the record.\<close>

lemma insertCommitInfo_placed:
  assumes locked: "mCacheLocked s"
    and sound: "rows_sound s"
    and fresh: "\<not> hash_contains (mCommitsMap s) (sha r)"
    and hint: "0 \<le> h"
  shows "\<exists>s' a. insertCommitInfo L r h s = Some s' \<and> mCacheLocked s' \<and> rows_sound s'
          \<and> nat (if count s \<le> h then count s else h) < length (mCommits s')
          \<and> mCommits s' ! nat (if count s \<le> h then count s else h) = Some a
          \<and> deref (owned s') a = Some (setLanes (fst (calculateLanes L r (mLanes s))) r)
          \<and> deref (owned s') (length (owned s))
              = Some (setLanes (fst (calculateLanes L r (mLanes s))) r)
          \<and> (length (owned s) = a \<or> Some (length (owned s)) \<notin> set (mCommits s'))
          \<and> (parent 0 r \<noteq> sha r \<longrightarrow>
                hash_value (mCommitsMap s') (sha r) = Some (length (owned s)))"
proof -
  let ?rev = "setLanes (fst (calculateLanes L r (mLanes s))) r"
  let ?cm = "length (owned s)"
  let ?m1 = "AList.update (sha r) (Some ?cm) (mCommitsMap s)"
  let ?m2 = "if hash_contains ?m1 (parent 0 r) then AList.delete (parent 0 r) ?m1 else ?m1"
  let ?row = "nat (if count s \<le> h then count s else h)"
  have sr: "sound_rows (mCommits s) (owned s)" using sound by (simp add: rows_sound_def)
  have keymap: "parent 0 r \<noteq> sha r \<longrightarrow> hash_value ?m2 (sha r) = Some ?cm"
    by (simp add: hash_value_update hash_value_delete)
  from insertCommitInfo_effect [OF locked fresh sound hint, of L]
  obtain cs st where run: "insertCommitInfo L r h s
        = Some (s\<lparr>mCommits := cs, mCommitsMap := ?m2,
                  mLanes := snd (calculateLanes L r (mLanes s)), owned := st\<rparr>)"
    and shape: "(count s \<le> h \<and> cs = mCommits s @ [Some ?cm] \<and> st = owned s @ [Some ?rev])
       \<or> (h < count s \<and> cs = mCommits s \<and> st = owned s @ [Some ?rev]
          \<and> (\<exists>old. mCommits s ! nat h = Some old \<and> deref (owned s) old = Some ?rev))
       \<or> (h < count s \<and> cs = (mCommits s)[nat h := Some ?cm] \<and> mCommits s ! nat h = None
          \<and> st = owned s @ [Some ?rev])
       \<or> (h < count s \<and> cs = (mCommits s)[nat h := Some ?cm]
          \<and> (\<exists>old. mCommits s ! nat h = Some old \<and> old < ?cm
                \<and> st = (owned s @ [Some ?rev])[old := None]))"
    by blast
  have facts: "\<exists>a. sound_rows cs st \<and> ?row < length cs \<and> cs ! ?row = Some a
       \<and> deref st a = Some ?rev \<and> deref st ?cm = Some ?rev \<and> (?cm = a \<or> Some ?cm \<notin> set cs)"
    using shape
  proof (elim disjE conjE exE)
    assume "count s \<le> h" "cs = mCommits s @ [Some ?cm]" "st = owned s @ [Some ?rev]"
    then show ?thesis
      using sound_rows_append [OF sr, of ?rev]
      by (auto simp: count_def nth_append deref_append_new)
  next
    fix old
    assume "h < count s" "cs = mCommits s" "st = owned s @ [Some ?rev]"
      "mCommits s ! nat h = Some old" "deref (owned s) old = Some ?rev"
    then show ?thesis
      using sound_rows_store_grows [OF sr, of "Some ?rev"] sound_rows_fresh [OF sr] hint
      by (auto simp: count_def deref_append_new deref_append_old)
  next
    assume h: "h < count s" and c: "cs = (mCommits s)[nat h := Some ?cm]"
      and n: "mCommits s ! nat h = None" and t: "st = owned s @ [Some ?rev]"
    have nh: "nat h < length (mCommits s)" using h hint by (auto simp: count_def)
    show ?thesis
      using sound_rows_overwrite_null [OF sr nh n, of ?rev] h nh c t
      by (auto simp: deref_append_new)
  next
    fix old
    assume h: "h < count s" and c: "cs = (mCommits s)[nat h := Some ?cm]"
      and o: "mCommits s ! nat h = Some old" "old < ?cm"
      and t: "st = (owned s @ [Some ?rev])[old := None]"
    have nh: "nat h < length (mCommits s)" using h hint by (auto simp: count_def)
    have "deref st ?cm = Some ?rev"
      using o(2) t by (simp add: deref_update_other deref_append_new)
    then show ?thesis
      using sound_rows_overwrite_delete [OF sr nh o(1), of ?rev] h nh c t by auto
  qed
  show ?thesis
    using run locked facts keymap by (auto simp: rows_sound_def)
qed

text \<open>The cache's own operations build states with sound rows.\<close>

lemma rows_sound_new: "rows_sound (RevisionsCache_new ls)"
  by (simp add: rows_sound_def sound_rows_def RevisionsCache_new_def)

lemma rows_sound_beginCacheConfig:
  "rows_sound s \<Longrightarrow> beginCacheConfig n s = Some s' \<Longrightarrow> rows_sound s'"
  by (auto simp: rows_sound_def sound_rows_def beginCacheConfig_def list_all_iff
      split: if_splits option.splits)

lemma rows_sound_endCacheConfig: "rows_sound s \<Longrightarrow> rows_sound (endCacheConfig s)"
  by (simp add: rows_sound_def endCacheConfig_def)

lemma rows_sound_insertCommitInfo:
  assumes "rows_sound s" and "insertCommitInfo L r h s = Some s'"
  shows "rows_sound s'"
proof (cases "mCacheLocked s \<and> \<not> hash_contains (mCommitsMap s) (sha r)")
  case False
  then have "s' = s" using assms(2) by (auto simp: insertCommitInfo_def split: if_splits)
  then show ?thesis using assms(1) by simp
next
  case True
  have "0 \<le> h"
  proof (rule ccontr)
    assume "\<not> 0 \<le> h"
    then have "insertCommitInfo L r h s = None"
      using True by (simp add: insertCommitInfo_def Let_def count_def)
    then show False using assms(2) by simp
  qed
  then show ?thesis
    using insertCommitInfo_placed [of s r h L] True assms by auto
qed

lemma rows_sound_insertReference:
  assumes "rows_sound s" and "insertReference sh t v s = Some s'"
  shows "rows_sound s'"
  using assms sound_rows_assign
  by (auto simp: insertReference_def rows_sound_def Let_def split: if_splits option.splits)

lemma rows_sound_commit:
  assumes "rows_sound s" and "commit L after_move c b s = Some s'"
  shows "rows_sound s'"
  using assms sound_rows_insert_row [of "mCommits s" "owned s" 1]
  by (auto simp: commit_def rows_sound_def Let_def new_CommitInfo_def
      intro!: sound_rows_assign split: if_splits option.splits)

subsection \<open>Rename and copy lines\<close>

text \<open>
  Claim C1. A rename line \<open>R<NN> TAB orig TAB dest\<close> should give two entries, the
  destination tagged NEW and the origin tagged DELETED, both annotated
  \<open>orig --> dest (NN%)\<close>. The code strips the leading letter from the type field before it
  tests \<open>type.at(0) == 'R'\<close>, so the test sees the first digit: on the spec's own example
  \<open>R90 TAB old/path.txt TAB new/path.txt\<close> the record holds the NEW destination only, and
  no DELETED entry for \<open>old/path.txt\<close>.
\<close>

theorem C1_rename_line_yields_only_new_entry:
  "parse_ext_line (''R90'' @ [CHR 0x09] @ ''old/path.txt'' @ [CHR 0x09] @ ''new/path.txt'')
   = Some \<lparr>mFiles = [''new/path.txt''], mergeParent = [1], mFileStatus = [{NEW}],
            mRenamedFiles = [''old/path.txt --> new/path.txt (90%)''],
            mOnlyModified = False\<rparr>"
  by code_simp

text \<open>
  The copy half of the claim holds on the spec's example: only the NEW destination. The
  DELETED entry appears only when the type field starts with two letters R, where the
  similarity no longer parses.
\<close>

lemma copy_line_yields_only_new_entry:
  "parse_ext_line (''C80'' @ [CHR 0x09] @ ''a.txt'' @ [CHR 0x09] @ ''b.txt'')
   = Some \<lparr>mFiles = [''b.txt''], mergeParent = [1], mFileStatus = [{NEW}],
            mRenamedFiles = [''a.txt --> b.txt (80%)''], mOnlyModified = False\<rparr>"
  by code_simp

lemma doubled_letter_line_yields_deleted_entry:
  "parse_ext_line (''RR90'' @ [CHR 0x09] @ ''a.txt'' @ [CHR 0x09] @ ''b.txt'')
   = Some \<lparr>mFiles = [''b.txt'', ''a.txt''], mergeParent = [1, 1],
            mFileStatus = [{NEW}, {DELETED}],
            mRenamedFiles = [''a.txt --> b.txt (0%)'', ''a.txt --> b.txt (0%)''],
            mOnlyModified = False\<rparr>"
  by code_simp

text \<open>
  The same for every line of three fields: whenever the second character of the type
  field is not the letter R (for \<open>R<NN>\<close> and \<open>C<NN>\<close> it is a digit), the record holds the
  NEW destination and nothing else.
\<close>

lemma ext_line_yields_only_new_entry:
  assumes fields: "split_skip_empty (CHR 0x09) rowSt = [c # d # ds, orig, dest]"
    and second: "d \<noteq> CHR ''R''"
  shows "parse_ext_line rowSt
         = Some \<lparr>mFiles = [dest], mergeParent = [1], mFileStatus = [{NEW}],
                  mRenamedFiles =
                    [orig @ '' --> '' @ dest @ '' ('' @ number_str (toInt (d # ds)) @ ''%)''],
                  mOnlyModified = False\<rparr>"
  using assms
  by (simp add: parse_ext_line_def setExtStatus_def add_entry_def retarget_def flushFileNames_def
      parser_new_def FileNamesLoader_new_def appendFileName_def pool_index_def Let_def
      RevisionFiles_default_def setStatus_def appendExtStatus_def setOnlyModified_def)

subsection \<open>Reads during a bulk load\<close>

text \<open>
  Claim C2. While the bulk-load flag is set, every read operation returns its default:
  the empty record, -1, the empty file-change record, false, the zero distances, the empty
  list, the empty string. The read operations are functions of the cache state that return
  a result only, as their bodies assign no member, so the state is the same afterwards.
\<close>

theorem C2_locked_reads_return_defaults:
  assumes "mCacheLocked s"
  shows "getCommitInfoByRow row s = Some CommitInfo_default
       \<and> getCommitInfo sh s = Some CommitInfo_default
       \<and> getCommitInfoByField getFieldStr field txt start s = Some CommitInfo_default
       \<and> getCommitPos sh s = - 1
       \<and> getRevisionFile sha1 sha2 s = RevisionFiles_default
       \<and> containsRevisionFile sha1 sha2 s = False
       \<and> getLocalBranchDistances name s = LocalBranchDistances_default
       \<and> pendingLocalChanges s = Some False
       \<and> getBranches t s = Some []
       \<and> getTags s = Some []
       \<and> getCommitForBranch branch local s = Some []"
  using assms
  by (simp add: getCommitInfoByRow_def getCommitInfo_def getCommitInfoByField_def
      getCommitPos_def getRevisionFile_def containsRevisionFile_def
      getLocalBranchDistances_def pendingLocalChanges_def getBranches_def getTags_def
      getCommitForBranch_def)

theorem C2_locked_reads_witness:
  "mCacheLocked ((RevisionsCache_new (0::nat) :: (nat, nat) RevisionsCache)\<lparr>mCacheLocked := True\<rparr>)
   \<and> getCommitInfoByRow 0 ((RevisionsCache_new (0::nat) :: (nat, nat) RevisionsCache)\<lparr>mCacheLocked := True\<rparr>)
       = Some CommitInfo_default
   \<and> getCommitPos ''abc'' ((RevisionsCache_new (0::nat) :: (nat, nat) RevisionsCache)\<lparr>mCacheLocked := True\<rparr>) = - 1
   \<and> pendingLocalChanges ((RevisionsCache_new (0::nat) :: (nat, nat) RevisionsCache)\<lparr>mCacheLocked := True\<rparr>)
       = Some False"
proof -
  let ?s = "(RevisionsCache_new (0::nat) :: (nat, nat) RevisionsCache)\<lparr>mCacheLocked := True\<rparr>"
  have locked: "mCacheLocked ?s" by simp
  from C2_locked_reads_return_defaults [OF locked, of 0 "''abc''" "\<lambda>f c. sha c" "()" "''x''" 0
      "''a''" "''b''" "''master''" Tag "''master''" True]
  show ?thesis using locked by simp
qed

subsection \<open>Round trip of an inserted record\<close>

text \<open>One later insert of a bulk load leaves a placed record where it is.\<close>

lemma insertCommitInfo_frame:
  assumes locked: "mCacheLocked s"
    and sound: "rows_sound s"
    and hint: "0 \<le> h"
    and row: "i < length (mCommits s)" "mCommits s ! i = Some a" "deref (owned s) a = Some c"
    and other: "h \<noteq> int i"
    and key: "kd \<longrightarrow> hash_value (mCommitsMap s) k = Some b \<and> deref (owned s) b = Some c
                  \<and> (b = a \<or> Some b \<notin> set (mCommits s)) \<and> parent 0 r' \<noteq> k"
  shows "\<exists>s'. insertCommitInfo L r' h s = Some s' \<and> mCacheLocked s' \<and> rows_sound s'
          \<and> i < length (mCommits s') \<and> mCommits s' ! i = Some a \<and> deref (owned s') a = Some c
          \<and> (kd \<longrightarrow> hash_value (mCommitsMap s') k = Some b \<and> deref (owned s') b = Some c
                  \<and> (b = a \<or> Some b \<notin> set (mCommits s')))"
proof (cases "hash_contains (mCommitsMap s) (sha r')")
  case True
  then have "insertCommitInfo L r' h s = Some s"
    using locked by (simp add: insertCommitInfo_def)
  then show ?thesis using locked sound row key by simp
next
  case False
  let ?rev = "setLanes (fst (calculateLanes L r' (mLanes s))) r'"
  let ?cm = "length (owned s)"
  let ?m1 = "AList.update (sha r') (Some ?cm) (mCommitsMap s)"
  let ?m2 = "if hash_contains ?m1 (parent 0 r') then AList.delete (parent 0 r') ?m1 else ?m1"
  have sr: "sound_rows (mCommits s) (owned s)" using sound by (simp add: rows_sound_def)
  have a_bound: "a < ?cm" using row(3) by (rule deref_live_bound)
  have keymap: "hash_value ?m2 k = Some b" if kd
  proof -
    have "hash_contains (mCommitsMap s) k" using key that by (auto intro: hash_value_contains)
    then have "sha r' \<noteq> k" using False by auto
    then show ?thesis using key that by (auto simp: hash_value_update hash_value_delete)
  qed
  have b_bound: "b < ?cm" if kd using key that by (auto intro: deref_live_bound)
  from insertCommitInfo_effect [OF locked False sound hint, of L]
  obtain cs st where run: "insertCommitInfo L r' h s
        = Some (s\<lparr>mCommits := cs, mCommitsMap := ?m2,
                  mLanes := snd (calculateLanes L r' (mLanes s)), owned := st\<rparr>)"
    and shape: "(count s \<le> h \<and> cs = mCommits s @ [Some ?cm] \<and> st = owned s @ [Some ?rev])
       \<or> (h < count s \<and> cs = mCommits s \<and> st = owned s @ [Some ?rev]
          \<and> (\<exists>old. mCommits s ! nat h = Some old \<and> deref (owned s) old = Some ?rev))
       \<or> (h < count s \<and> cs = (mCommits s)[nat h := Some ?cm] \<and> mCommits s ! nat h = None
          \<and> st = owned s @ [Some ?rev])
       \<or> (h < count s \<and> cs = (mCommits s)[nat h := Some ?cm]
          \<and> (\<exists>old. mCommits s ! nat h = Some old \<and> old < ?cm
                \<and> st = (owned s @ [Some ?rev])[old := None]))"
    by blast
  have facts: "sound_rows cs st \<and> i < length cs \<and> cs ! i = Some a \<and> deref st a = Some c
       \<and> (kd \<longrightarrow> deref st b = Some c \<and> (b = a \<or> Some b \<notin> set cs))"
    using shape
  proof (elim disjE conjE exE)
    assume "cs = mCommits s @ [Some ?cm]" "st = owned s @ [Some ?rev]"
    then show ?thesis
      using sound_rows_append [OF sr, of ?rev] row key b_bound
      by (auto simp: nth_append deref_append_old)
  next
    assume "cs = mCommits s" "st = owned s @ [Some ?rev]"
    then show ?thesis
      using sound_rows_store_grows [OF sr, of "Some ?rev"] row key
      by (auto simp: deref_append_old)
  next
    assume h: "h < count s" and c: "cs = (mCommits s)[nat h := Some ?cm]"
      and n: "mCommits s ! nat h = None" and t: "st = owned s @ [Some ?rev]"
    have nh: "nat h < length (mCommits s)" "nat h \<noteq> i"
      using h hint other by (auto simp: count_def)
    have "Some b \<notin> set cs" if "Some b \<notin> set (mCommits s)" kd
      using that b_bound set_update_subset_insert [of "mCommits s" "nat h" "Some ?cm"] c by auto
    then show ?thesis
      using sound_rows_overwrite_null [OF sr nh(1) n, of ?rev] row key nh c t
      by (auto simp: deref_append_old)
  next
    fix old
    assume h: "h < count s" and c: "cs = (mCommits s)[nat h := Some ?cm]"
      and o: "mCommits s ! nat h = Some old" "old < ?cm"
      and t: "st = (owned s @ [Some ?rev])[old := None]"
    have nh: "nat h < length (mCommits s)" "nat h \<noteq> i"
      using h hint other by (auto simp: count_def)
    have a_old: "a \<noteq> old"
      using sound_rows_unique [OF sr row(1) nh(1) row(2)] o(1) nh(2) by auto
    have in_rows: "Some old \<in> set (mCommits s)" using o(1) nh(1) by (metis nth_mem)
    have kept: "Some b \<notin> set cs" if "Some b \<notin> set (mCommits s)" kd
      using that b_bound set_update_subset_insert [of "mCommits s" "nat h" "Some ?cm"] c by auto
    have b_old: "b \<noteq> old" if kd using key that a_old in_rows by auto
    have da: "deref st a = Some c"
      using row(3) a_old t by (simp add: deref_update_other deref_append_old)
    have db: "deref st b = Some c" if kd
      using key that b_old [OF that] t by (simp add: deref_update_other deref_append_old)
    show ?thesis
      using sound_rows_overwrite_delete [OF sr nh(1) o(1), of ?rev] row key nh c t da db kept
      by auto
  qed
  show ?thesis
    using run locked facts keymap by (auto simp: rows_sound_def)
qed

lemma insert_all_frame:
  assumes "mCacheLocked s" and "rows_sound s"
    and "i < length (mCommits s)" "mCommits s ! i = Some a" "deref (owned s) a = Some c"
    and "list_all (\<lambda>rh. 0 \<le> snd rh \<and> snd rh \<noteq> int i) rest"
    and "kd \<longrightarrow> hash_value (mCommitsMap s) k = Some b \<and> deref (owned s) b = Some c
               \<and> (b = a \<or> Some b \<notin> set (mCommits s))
               \<and> list_all (\<lambda>rh. parent 0 (fst rh) \<noteq> k) rest"
  shows "\<exists>s'. insert_all L rest s = Some s' \<and> mCacheLocked s'
          \<and> i < length (mCommits s') \<and> mCommits s' ! i = Some a \<and> deref (owned s') a = Some c
          \<and> (kd \<longrightarrow> hash_value (mCommitsMap s') k = Some b \<and> deref (owned s') b = Some c)"
  using assms
proof (induction rest arbitrary: s)
  case Nil
  then show ?case by simp
next
  case (Cons rh rest)
  have step: "\<exists>s1. insertCommitInfo L (fst rh) (snd rh) s = Some s1 \<and> mCacheLocked s1
          \<and> rows_sound s1 \<and> i < length (mCommits s1) \<and> mCommits s1 ! i = Some a
          \<and> deref (owned s1) a = Some c
          \<and> (kd \<longrightarrow> hash_value (mCommitsMap s1) k = Some b \<and> deref (owned s1) b = Some c
                  \<and> (b = a \<or> Some b \<notin> set (mCommits s1)))"
    using Cons.prems by (intro insertCommitInfo_frame) auto
  then obtain s1 where s1: "insertCommitInfo L (fst rh) (snd rh) s = Some s1"
    "mCacheLocked s1" "rows_sound s1" "i < length (mCommits s1)" "mCommits s1 ! i = Some a"
    "deref (owned s1) a = Some c"
    "kd \<longrightarrow> hash_value (mCommitsMap s1) k = Some b \<and> deref (owned s1) b = Some c
           \<and> (b = a \<or> Some b \<notin> set (mCommits s1))"
    by blast
  have "\<exists>s'. insert_all L rest s1 = Some s' \<and> mCacheLocked s'
          \<and> i < length (mCommits s') \<and> mCommits s' ! i = Some a \<and> deref (owned s') a = Some c
          \<and> (kd \<longrightarrow> hash_value (mCommitsMap s') k = Some b \<and> deref (owned s') b = Some c)"
    using s1 Cons.prems(6,7) by (intro Cons.IH) auto
  then show ?case using s1(1) by simp
qed

text \<open>
  Claim C3, as amended. The claim as written fails: a record inserted during a bulk load
  loses its key in the identifier index as soon as a later insert names it as first parent
  (\<open>insertCommitInfo\<close> removes the key \<open>rev.parent(0)\<close>), and \<open>getCommitInfo\<close> then
  answers with the default record. What holds, from a locked state with sound rows: a
  record with a fresh identifier, inserted with a non-negative position hint, is still
  returned after the rest of the load and \<open>endCacheConfig\<close> by \<open>getCommitInfoByRow\<close> at
  the row where it was placed, when every later insert has a non-negative hint other than
  that row; and by \<open>getCommitInfo\<close> with its exact identifier when moreover the
  identifier is non-empty and neither the record nor a later insert has it as first
  parent. Every field is the inserted one, and the lane sequence is the snapshot that the
  Lane Engine returned for the record.
\<close>

theorem C3_insert_then_retrieve:
  assumes locked: "mCacheLocked s"
    and sound: "rows_sound s"
    and fresh: "\<not> hash_contains (mCommitsMap s) (sha r)"
    and hint: "0 \<le> positionHint"
    and later: "list_all (\<lambda>rh. 0 \<le> snd rh
                  \<and> snd rh \<noteq> (if count s \<le> positionHint then count s else positionHint)) rest"
  shows "\<exists>s'. insert_all L ((r, positionHint) # rest) s = Some s'
          \<and> getCommitInfoByRow (if count s \<le> positionHint then count s else positionHint)
                (endCacheConfig s')
              = Some (setLanes (fst (calculateLanes L r (mLanes s))) r)
          \<and> (sha r \<noteq> [] \<and> parent 0 r \<noteq> sha r
              \<and> list_all (\<lambda>rh. parent 0 (fst rh) \<noteq> sha r) rest \<longrightarrow>
                getCommitInfo (sha r) (endCacheConfig s')
                = Some (setLanes (fst (calculateLanes L r (mLanes s))) r))"
proof -
  let ?rev = "setLanes (fst (calculateLanes L r (mLanes s))) r"
  let ?row = "if count s \<le> positionHint then count s else positionHint"
  let ?kd = "sha r \<noteq> [] \<and> parent 0 r \<noteq> sha r \<and> list_all (\<lambda>rh. parent 0 (fst rh) \<noteq> sha r) rest"
  let ?cm = "length (owned s)"
  have row_int: "int (nat ?row) = ?row" using hint by (simp add: count_def)
  from insertCommitInfo_placed [OF locked sound fresh hint, of L]
  obtain s1 a where s1: "insertCommitInfo L r positionHint s = Some s1" "mCacheLocked s1"
    "rows_sound s1" "nat ?row < length (mCommits s1)" "mCommits s1 ! nat ?row = Some a"
    "deref (owned s1) a = Some ?rev" "deref (owned s1) ?cm = Some ?rev"
    "?cm = a \<or> Some ?cm \<notin> set (mCommits s1)"
    "parent 0 r \<noteq> sha r \<longrightarrow> hash_value (mCommitsMap s1) (sha r) = Some ?cm"
    by blast
  have hints: "list_all (\<lambda>rh. 0 \<le> snd rh \<and> snd rh \<noteq> int (nat ?row)) rest"
    using later row_int by simp
  have "\<exists>s'. insert_all L rest s1 = Some s' \<and> mCacheLocked s'
          \<and> nat ?row < length (mCommits s') \<and> mCommits s' ! nat ?row = Some a
          \<and> deref (owned s') a = Some ?rev
          \<and> (?kd \<longrightarrow> hash_value (mCommitsMap s') (sha r) = Some ?cm
                \<and> deref (owned s') ?cm = Some ?rev)"
    using s1 hints by (intro insert_all_frame) auto
  then obtain s' where s': "insert_all L rest s1 = Some s'"
    "nat ?row < length (mCommits s')" "mCommits s' ! nat ?row = Some a"
    "deref (owned s') a = Some ?rev"
    "?kd \<longrightarrow> hash_value (mCommitsMap s') (sha r) = Some ?cm \<and> deref (owned s') ?cm = Some ?rev"
    by blast
  have run: "insert_all L ((r, positionHint) # rest) s = Some s'"
    using s1(1) s'(1) by simp
  have "getCommitInfoByRow (int (nat ?row)) (endCacheConfig s') = Some ?rev"
    using s'(2,3,4) by (intro getCommitInfoByRow_slot) (simp_all add: endCacheConfig_def)
  then have byrow: "getCommitInfoByRow ?row (endCacheConfig s') = Some ?rev"
    using row_int by simp
  have byid: "getCommitInfo (sha r) (endCacheConfig s') = Some ?rev" if ?kd
    using that s'(5)
    by (intro getCommitInfo_indexed [where a = ?cm]) (simp_all add: endCacheConfig_def)
  from run byrow byid show ?thesis by blast
qed

theorem C3_insert_then_retrieve_witness:
  "mCacheLocked loading_cache \<and> rows_sound loading_cache
   \<and> \<not> hash_contains (mCommitsMap loading_cache) (sha (mk_commit ''abc123'' [''abd999''] ''ann''))
   \<and> (\<exists>s'. insert_all counting_Lanes
              [(mk_commit ''abc123'' [''abd999''] ''ann'', 1),
               (mk_commit ''abd999'' [''ffe000''] ''bob'', 2),
               (mk_commit ''ffe000'' [] ''bobby'', 7)] loading_cache = Some s'
         \<and> getCommitInfoByRow 1 (endCacheConfig s')
             = Some ((mk_commit ''abc123'' [''abd999''] ''ann'')\<lparr>lanes := [0]\<rparr>)
         \<and> getCommitInfo ''abc123'' (endCacheConfig s')
             = Some ((mk_commit ''abc123'' [''abd999''] ''ann'')\<lparr>lanes := [0]\<rparr>))"
  using C3_insert_then_retrieve [of loading_cache "mk_commit ''abc123'' [''abd999''] ''ann''" 1
      "[(mk_commit ''abd999'' [''ffe000''] ''bob'', 2), (mk_commit ''ffe000'' [] ''bobby'', 7)]"
      counting_Lanes]
  by (simp add: loading_cache_def RevisionsCache_new_def hash_contains_def count_def mk_commit_def
      parent_def calculateLanes_def counting_Lanes_def setLanes_def parentsCount_def Let_def
      rows_sound_def sound_rows_def)

text \<open>
  The counterexample to C3 as written: the bulk load inserts \<open>p\<close> at row 1 and then its
  child \<open>c\<close> at row 2; after the load \<open>getCommitInfo\<close> of the exact identifier \<open>p\<close>
  returns the default record, whose author is not the inserted one.
\<close>

theorem C3_parent_key_dropped_counterexample:
  "Option.bind
     (bulk_load counting_Lanes 2
        [(mk_commit ''p'' [''q''] ''ann'', 1), (mk_commit ''c'' [''p''] ''bob'', 2)]
        (RevisionsCache_new 0))
     (getCommitInfo ''p'')
   = Some CommitInfo_default
   \<and> author (mk_commit ''p'' [''q''] ''ann'') \<noteq> author (CommitInfo_default :: nat CommitInfo)"
  by (simp add: bulk_load_def beginCacheConfig_def RevisionsCache_new_def insertCommitInfo_def
      hash_contains_def hash_value_def hash_keys_def count_def calculateLanes_def resetLanes_def counting_Lanes_def
      new_CommitInfo_def delete_CommitInfo_def deref_def mk_commit_def setLanes_def parent_def
      parentsCount_def endCacheConfig_def getCommitInfo_def CommitInfo_default_def Let_def)

subsection \<open>Duplicate inserts\<close>

text \<open>
  Claim C4. In a bulk load, inserting a record whose identifier is already in the
  identifier index leaves the cache exactly as it is, whatever the position hint: the same
  records, the same position index, the same identifier index.
\<close>

theorem C4_duplicate_insert_is_ignored:
  assumes "mCacheLocked s" and "hash_contains (mCommitsMap s) (sha r)"
  shows "insertCommitInfo L r positionHint s = Some s"
  using assms by (simp add: insertCommitInfo_def)

theorem C4_duplicate_insert_witness:
  "\<exists>s. insertCommitInfo counting_Lanes (mk_commit ''abc123'' [''abd999''] ''ann'') 1 loading_cache = Some s
       \<and> mCacheLocked s
       \<and> hash_contains (mCommitsMap s) (sha (mk_commit ''abc123'' [''abd999''] ''ann''))
       \<and> insertCommitInfo counting_Lanes (mk_commit ''abc123'' [''abd999''] ''ann'') 1 s = Some s"
proof -
  let ?r = "mk_commit ''abc123'' [''abd999''] ''ann''"
  obtain s where first: "insertCommitInfo counting_Lanes ?r 1 loading_cache = Some s"
    and locked: "mCacheLocked s"
    and present: "hash_contains (mCommitsMap s) (sha ?r)"
    by (simp add: insertCommitInfo_def loading_cache_def RevisionsCache_new_def hash_contains_def
        count_def mk_commit_def setLanes_def parent_def new_CommitInfo_def Let_def)
  from C4_duplicate_insert_is_ignored [OF locked present, of counting_Lanes 1] first locked present
  show ?thesis by blast
qed

subsection \<open>Lookup by identifier\<close>




subsection \<open>Pending local changes\<close>

text \<open>
  Claim C6. On an unlocked cache that indexes the working-directory pseudo-commit under the
  all-zero identifier and stores its file-change record under the pair (zero identifier,
  first parent of the pseudo-commit), \<open>pendingLocalChanges\<close> is true exactly when the
  number of files of that record equals the length of the untracked-file list.
\<close>

theorem C6_pendingLocalChanges_compares_counts:
  assumes "\<not> mCacheLocked s"
    and "hash_value (mCommitsMap s) ZERO_SHA = Some a"
    and "deref (owned s) a = Some wip"
    and "mRevisionFilesMap s (ZERO_SHA, parent 0 wip) = Some rf"
  shows "pendingLocalChanges s = Some (rf_count rf = length (mUntrackedfiles s))"
  using assms by (simp add: pendingLocalChanges_def getRevisionFile_def)

theorem C6_pendingLocalChanges_witness:
  "\<not> mCacheLocked wip_cache
   \<and> hash_value (mCommitsMap wip_cache) ZERO_SHA = Some 0
   \<and> deref (owned wip_cache) 0 = Some (mk_commit ZERO_SHA [''abc123''] ''-'')
   \<and> mRevisionFilesMap wip_cache (ZERO_SHA, parent 0 (mk_commit ZERO_SHA [''abc123''] ''-'')) = Some wip_files
   \<and> pendingLocalChanges wip_cache = Some True
   \<and> pendingLocalChanges (wip_cache\<lparr>mUntrackedfiles := []\<rparr>) = Some False"
proof -
  let ?wip = "mk_commit ZERO_SHA [''abc123''] ''-''"
  have h: "\<not> mCacheLocked wip_cache" "hash_value (mCommitsMap wip_cache) ZERO_SHA = Some 0"
    "deref (owned wip_cache) 0 = Some ?wip"
    "mRevisionFilesMap wip_cache (ZERO_SHA, parent 0 ?wip) = Some wip_files"
    by (simp_all add: wip_cache_def RevisionsCache_new_def hash_value_def deref_def parent_def
        mk_commit_def)
  have h': "\<not> mCacheLocked (wip_cache\<lparr>mUntrackedfiles := []\<rparr>)"
    "hash_value (mCommitsMap (wip_cache\<lparr>mUntrackedfiles := []\<rparr>)) ZERO_SHA = Some 0"
    "deref (owned (wip_cache\<lparr>mUntrackedfiles := []\<rparr>)) 0 = Some ?wip"
    "mRevisionFilesMap (wip_cache\<lparr>mUntrackedfiles := []\<rparr>) (ZERO_SHA, parent 0 ?wip) = Some wip_files"
    using h by simp_all
  from C6_pendingLocalChanges_compares_counts [OF h]
    C6_pendingLocalChanges_compares_counts [OF h'] h
  show ?thesis
    by (simp add: rf_count_def wip_files_def wip_cache_def RevisionsCache_new_def)
qed

subsection \<open>Appending a commit\<close>

text \<open>
  Claim C7. \<open>commit r b\<close> should take the local branch \<open>b\<close> off the first parent of \<open>r\<close>
  and put it on the new record. The code looks the parent up with \<open>c.parent(0)\<close> after
  \<open>c\<close> has been moved into the new record, where \<open>updateWipCommit\<close> saves the identifier
  before its move. With a movable \<open>CommitInfo\<close> the lookup reads the empty identifier,
  which the line before has just entered for the new record: on the cache whose row 1 is the
  tip \<open>abc123\<close> of \<open>master\<close>, appending \<open>fed000\<close> leaves \<open>master\<close> on \<open>abc123\<close> and
  adds the empty key to the index.
\<close>

theorem C7_commit_leaves_branch_on_parent:
  "Option.bind
     (commit counting_Lanes moved_from (mk_commit ''fed000'' [''abc123''] ''bob'') ''master'' tip_cache)
     (getCommitInfo ''abc123'')
   = Some (addReference LocalBranch ''master'' (mk_commit ''abc123'' [''abd999''] ''ann''))
   \<and> getReferences (addReference LocalBranch ''master'' (mk_commit ''abc123'' [''abd999''] ''ann''))
        LocalBranch = [''master'']
   \<and> map_option (hash_keys \<circ> mCommitsMap)
        (commit counting_Lanes moved_from (mk_commit ''fed000'' [''abc123''] ''bob'') ''master'' tip_cache)
       = Some [''abc123'', ''fed000'', []]"
  by (simp add: commit_def moved_from_def tip_cache_def run_defs assign_def getReferences_def
      addReference_def removeReference_def References_getReferences_def
      References_addReference_def References_removeReference_def)

text \<open>
  The same for every cache and record: after an emptying move every record that was there
  before, the parent included, keeps its references.
\<close>

lemma commit_after_emptying_move:
  fixes r :: "'lane CommitInfo"
  assumes row0: "1 \<le> length (mCommits s)"
    and live: "deref (owned s) pa = Some par"
  shows "\<exists>s'. commit L (\<lambda>c. CommitInfo_default) r b s = Some s'
             \<and> deref (owned s') pa = Some par"
proof -
  let ?c = "setLanes (fst (calculateLanes L r (mLanes s))) r"
  let ?h1 = "fst (new_CommitInfo ?c (owned s))"
  let ?cm = "snd (new_CommitInfo ?c (owned s))"
  let ?h2 = "if b \<in> set (getReferences ?c LocalBranch)
             then assign ?cm (removeReference LocalBranch b ?c) ?h1 else ?h1"
  have ne: "pa \<noteq> ?cm" using live by (rule deref_live_not_new)
  have h1pa: "deref ?h1 pa = Some par" using live by (rule deref_new_old)
  have nonempty: "mCommits s \<noteq> []" using row0 by auto
  have empty_parent: "parent 0 (CommitInfo_default :: 'lane CommitInfo) = []"
    and empty_sha: "sha (CommitInfo_default :: 'lane CommitInfo) = []"
    by (simp_all add: parent_def CommitInfo_default_def)
  have "deref ?h2 ?cm = Some (if b \<in> set (getReferences ?c LocalBranch)
                               then removeReference LocalBranch b ?c else ?c)"
    using deref_assign_same [of ?h1 ?cm ?c] by simp
  then obtain new where h2cm: "deref ?h2 ?cm = Some new" ..
  have h2pa: "deref ?h2 pa = Some par"
    using h1pa ne by (simp add: deref_assign_other)
  have "commit L (\<lambda>c. CommitInfo_default) r b s
        = Some (s\<lparr>mCommits := take 1 (mCommits s) @ Some ?cm # drop 1 (mCommits s),
                  mCommitsMap := AList.update [] (Some ?cm)
                                   (AList.update (sha ?c) (Some ?cm) (mCommitsMap s)),
                  mLanes := snd (calculateLanes L r (mLanes s)),
                  owned := assign ?cm (addReference LocalBranch b new) ?h2\<rparr>)"
    using nonempty h2cm
    by (simp add: commit_def Let_def empty_parent empty_sha hash_value_update)
  moreover have "deref (assign ?cm (addReference LocalBranch b new) ?h2) pa = Some par"
    using h2pa ne by (simp add: deref_assign_other)
  ultimately show ?thesis by simp
qed

text \<open>
  What the code would do were the record still readable after the hand-over (a
  \<open>CommitInfo\<close> that is copied): the branch leaves the parent and lands on the new record
  at row 1.
\<close>

lemma commit_migrates_branch_of_readable_record:
  assumes row0: "1 \<le> length (mCommits s)"
    and indexed: "hash_value (mCommitsMap s) (parent 0 r) = Some pa"
    and live: "deref (owned s) pa = Some par"
    and distinct: "sha r \<noteq> parent 0 r"
    and readable: "sha (after_move (setLanes (fst (calculateLanes L r (mLanes s))) r)) = sha r"
      "parent 0 (after_move (setLanes (fst (calculateLanes L r (mLanes s))) r)) = parent 0 r"
  shows "\<exists>s' cm new par'.
           commit L after_move r b s = Some s'
         \<and> mCommits s' ! 1 = Some cm
         \<and> hash_value (mCommitsMap s') (sha r) = Some cm
         \<and> deref (owned s') cm = Some new
         \<and> new = addReference LocalBranch b (setLanes (fst (calculateLanes L r (mLanes s))) r)
         \<and> b \<in> set (getReferences new LocalBranch)
         \<and> hash_value (mCommitsMap s') (parent 0 r) = Some pa
         \<and> deref (owned s') pa = Some par'
         \<and> b \<notin> set (getReferences par' LocalBranch)
         \<and> (\<forall>t v. (t, v) \<noteq> (LocalBranch, b) \<longrightarrow>
               (v \<in> set (getReferences par' t)) = (v \<in> set (getReferences par t)))
         \<and> (\<not> mCacheLocked s \<and> sha r \<noteq> [] \<longrightarrow> getCommitInfo (sha r) s' = Some new)"
proof -
  let ?c = "setLanes (fst (calculateLanes L r (mLanes s))) r"
  let ?h1 = "fst (new_CommitInfo ?c (owned s))"
  let ?cm = "snd (new_CommitInfo ?c (owned s))"
  let ?par' = "if b \<in> set (getReferences par LocalBranch) then removeReference LocalBranch b par else par"
  let ?h2 = "if b \<in> set (getReferences par LocalBranch)
             then assign pa (removeReference LocalBranch b par) ?h1 else ?h1"
  let ?new = "addReference LocalBranch b ?c"
  let ?s' = "s\<lparr>mCommits := take 1 (mCommits s) @ Some ?cm # drop 1 (mCommits s),
               mCommitsMap := AList.update (sha ?c) (Some ?cm) (AList.update (sha ?c) (Some ?cm) (mCommitsMap s)),
               mLanes := snd (calculateLanes L r (mLanes s)),
               owned := assign ?cm ?new ?h2\<rparr>"
  have sha_c: "sha ?c = sha r"
    by (simp add: setLanes_def)
  have ne: "pa \<noteq> ?cm" using live by (rule deref_live_not_new)
  have h1pa: "deref ?h1 pa = Some par" using live by (rule deref_new_old)
  have h2pa: "deref ?h2 pa = Some ?par'"
    using h1pa by (simp add: deref_assign_same)
  have h2cm: "deref ?h2 ?cm = Some ?c"
    using ne by (simp add: deref_assign_other)
  have lookup: "hash_value (AList.update (sha ?c) (Some ?cm)
                   (AList.update (sha ?c) (Some ?cm) (mCommitsMap s))) (parent 0 r) = Some pa"
    using distinct indexed by (simp add: hash_value_update sha_c)
  have nonempty: "mCommits s \<noteq> []" using row0 by auto
  have run: "commit L after_move r b s = Some ?s'"
    using nonempty lookup h1pa h2cm
    by (simp add: commit_def Let_def readable sha_c)
  have row1: "mCommits ?s' ! 1 = Some ?cm"
    using row0 by (cases "mCommits s") (simp_all add: nth_append)
  have idx: "hash_value (mCommitsMap ?s') (sha r) = Some ?cm"
    by (simp add: hash_value_update sha_c)
  have stored: "deref (owned ?s') ?cm = Some ?new"
    using h2cm by (simp add: deref_assign_same)
  have has_b: "b \<in> set (getReferences ?new LocalBranch)"
    by (simp add: getReferences_def addReference_def References_getReferences_def
        References_addReference_def)
  have pidx: "hash_value (mCommitsMap ?s') (parent 0 r) = Some pa"
    using lookup by simp
  have pstored: "deref (owned ?s') pa = Some ?par'"
    using h2pa ne by (simp add: deref_assign_other)
  have gone: "b \<notin> set (getReferences ?par' LocalBranch)"
    by (simp add: getReferences_def removeReference_def References_getReferences_def
        References_removeReference_def)
  have others: "\<forall>t v. (t, v) \<noteq> (LocalBranch, b) \<longrightarrow>
                  (v \<in> set (getReferences ?par' t)) = (v \<in> set (getReferences par t))"
    by (auto simp: getReferences_def removeReference_def References_getReferences_def
        References_removeReference_def)
  have get: "\<not> mCacheLocked s \<and> sha r \<noteq> [] \<longrightarrow> getCommitInfo (sha r) ?s' = Some ?new"
    using idx stored by (simp add: getCommitInfo_def)
  from run row1 idx stored has_b pidx pstored gone others get show ?thesis
    by blast
qed

subsection \<open>Directional file-change pairs\<close>

text \<open>
  Claim C8. For distinct identifiers \<open>a\<close> and \<open>b\<close>, \<open>insertRevisionFile a b f\<close> leaves
  what \<open>getRevisionFile b a\<close> and \<open>containsRevisionFile b a\<close> return unchanged.
\<close>

theorem C8_file_change_pairs_are_directional:
  assumes "a \<noteq> b"
  shows "getRevisionFile b a (snd (insertRevisionFile a b f s)) = getRevisionFile b a s
       \<and> containsRevisionFile b a (snd (insertRevisionFile a b f s)) = containsRevisionFile b a s"
  using assms by (simp add: insertRevisionFile_def getRevisionFile_def containsRevisionFile_def)

theorem C8_file_change_pairs_witness:
  "''abc123'' \<noteq> ''abd999''
   \<and> getRevisionFile ''abd999'' ''abc123''
        (snd (insertRevisionFile ''abc123'' ''abd999'' wip_files loaded_cache))
       = RevisionFiles_default
   \<and> containsRevisionFile ''abd999'' ''abc123''
        (snd (insertRevisionFile ''abc123'' ''abd999'' wip_files loaded_cache)) = False
   \<and> getRevisionFile ''abc123'' ''abd999''
        (snd (insertRevisionFile ''abc123'' ''abd999'' wip_files loaded_cache)) = wip_files"
  using C8_file_change_pairs_are_directional [of "''abc123''" "''abd999''" wip_files loaded_cache]
  by (simp add: insertRevisionFile_def getRevisionFile_def containsRevisionFile_def
      loaded_cache_def RevisionsCache_new_def wip_files_def RevisionFiles_default_def)

subsection \<open>Search by field\<close>

lemma find_if_from_rows:
  assumes "list_all2 (\<lambda>p r. \<exists>a. p = Some a \<and> deref h a = Some r) ps rs"
  shows "find_if_from h P ps i = Some (i + length (takeWhile (\<lambda>r. \<not> P r) rs))"
  using assms by (induction arbitrary: i rule: list_all2_induct) auto

lemma rows_list_all2:
  assumes "length rs = length (mCommits s)"
    and "\<forall>i<length rs. deref_row s i = Some (rs ! i)"
  shows "list_all2 (\<lambda>p r. \<exists>a. p = Some a \<and> deref (owned s) a = Some r) (mCommits s) rs"
  using assms
  by (auto simp: list_all2_conv_all_nth deref_row_def split: option.splits)

lemma searchCommit_rows:
  assumes "length rs = length (mCommits s)"
    and "\<forall>i<length rs. deref_row s i = Some (rs ! i)"
    and "n \<le> length rs"
  shows "searchCommit F f t (int n) s
         = Some (n + length (takeWhile (\<lambda>r. \<not> contains_str (F f r) t) (drop n rs)))"
proof -
  have "list_all2 (\<lambda>p r. \<exists>a. p = Some a \<and> deref (owned s) a = Some r)
          (drop n (mCommits s)) (drop n rs)"
    using rows_list_all2 [OF assms(1,2)] by (rule list_all2_dropI)
  then show ?thesis
    using assms(1,3) by (simp add: searchCommit_def count_def find_if_from_rows)
qed

lemma first_match_offset:
  assumes "n \<le> i" and "i < length rs" and "P (rs ! i)"
    and "\<forall>j. n \<le> j \<and> j < i \<longrightarrow> \<not> P (rs ! j)"
  shows "n + length (takeWhile (\<lambda>r. \<not> P r) (drop n rs)) = i"
proof -
  let ?xs = "drop n rs"
  let ?k = "length (takeWhile (\<lambda>r. \<not> P r) ?xs)"
  have le: "i - n \<le> ?k"
    using assms by (intro length_takeWhile_less_P_nth) auto
  have "\<not> i - n < ?k"
  proof
    assume lt: "i - n < ?k"
    then have "takeWhile (\<lambda>r. \<not> P r) ?xs ! (i - n) = ?xs ! (i - n)"
      by (rule takeWhile_nth)
    moreover have "takeWhile (\<lambda>r. \<not> P r) ?xs ! (i - n) \<in> set (takeWhile (\<lambda>r. \<not> P r) ?xs)"
      using lt by simp
    ultimately have "\<not> P (?xs ! (i - n))"
      by (metis set_takeWhileD)
    then show False using assms by simp
  qed
  with le show ?thesis using assms(1) by simp
qed

lemma no_match_offset:
  assumes "n \<le> length rs" and "\<forall>j. n \<le> j \<and> j < length rs \<longrightarrow> \<not> P (rs ! j)"
  shows "n + length (takeWhile (\<lambda>r. \<not> P r) (drop n rs)) = length rs"
proof -
  have "\<forall>x\<in>set (drop n rs). \<not> P x"
    using assms by (auto simp: in_set_conv_nth)
  then have eq: "takeWhile (\<lambda>r. \<not> P r) (drop n rs) = drop n rs"
    by (rule takeWhile_eq_all_conv [THEN iffD2])
  show ?thesis unfolding eq using assms(1) by simp
qed

text \<open>
  On a cache whose rows all hold live records \<open>rs\<close>, and for a starting row within the
  bounds of the position index, \<open>getCommitInfoByField\<close> returns the first record at a row
  from the starting row on whose field contains the text; when there is none and the
  starting row is positive, the first such record from row 0; and the default record when
  no row matches.
\<close>

lemma getCommitInfoByField_on_live_rows:
  fixes getFieldStr :: "'f \<Rightarrow> 'lane CommitInfo \<Rightarrow> string"
  defines "hit \<equiv> \<lambda>field txt c. contains_str (getFieldStr field c) txt"
  assumes unlocked: "\<not> mCacheLocked s"
    and bounds: "0 \<le> startingRow" "startingRow \<le> count s"
    and rows: "length rs = length (mCommits s)" "\<forall>i<length rs. deref_row s i = Some (rs ! i)"
  shows "(\<forall>i. nat startingRow \<le> i \<and> i < length rs \<and> hit field txt (rs ! i)
              \<and> (\<forall>j. nat startingRow \<le> j \<and> j < i \<longrightarrow> \<not> hit field txt (rs ! j))
            \<longrightarrow> getCommitInfoByField getFieldStr field txt startingRow s = Some (rs ! i))
       \<and> ((\<forall>j. nat startingRow \<le> j \<and> j < length rs \<longrightarrow> \<not> hit field txt (rs ! j))
            \<and> 0 < startingRow
            \<longrightarrow> (\<forall>i. i < length rs \<and> hit field txt (rs ! i)
                      \<and> (\<forall>j<i. \<not> hit field txt (rs ! j))
                    \<longrightarrow> getCommitInfoByField getFieldStr field txt startingRow s = Some (rs ! i)))
       \<and> ((\<forall>j<length rs. \<not> hit field txt (rs ! j))
            \<longrightarrow> getCommitInfoByField getFieldStr field txt startingRow s = Some CommitInfo_default)"
proof -
  let ?n = "nat startingRow"
  let ?P = "\<lambda>c. contains_str (getFieldStr field c) txt"
  have n: "?n \<le> length rs" "int ?n = startingRow"
    using bounds rows(1) by (simp_all add: count_def)
  have s1: "searchCommit getFieldStr field txt startingRow s
            = Some (?n + length (takeWhile (\<lambda>r. \<not> ?P r) (drop ?n rs)))"
    using searchCommit_rows [OF rows n(1), of getFieldStr field "txt"] n(2) by simp
  have s0: "searchCommit getFieldStr field txt 0 s
            = Some (length (takeWhile (\<lambda>r. \<not> ?P r) rs))"
    using searchCommit_rows [OF rows, of 0 getFieldStr field "txt"] by simp
  have A: "getCommitInfoByField getFieldStr field txt startingRow s = Some (rs ! i)"
    if "?n \<le> i" "i < length rs" "?P (rs ! i)" "\<forall>j. ?n \<le> j \<and> j < i \<longrightarrow> \<not> ?P (rs ! j)" for i
  proof -
    have "?n + length (takeWhile (\<lambda>r. \<not> ?P r) (drop ?n rs)) = i"
      using that by (intro first_match_offset) auto
    then show ?thesis
      using unlocked s1 that(2) rows by (simp add: getCommitInfoByField_def)
  qed
  have B: "getCommitInfoByField getFieldStr field txt startingRow s = Some (rs ! i)"
    if "\<forall>j. ?n \<le> j \<and> j < length rs \<longrightarrow> \<not> ?P (rs ! j)" "0 < startingRow"
      "i < length rs" "?P (rs ! i)" "\<forall>j<i. \<not> ?P (rs ! j)" for i
  proof -
    have e1: "?n + length (takeWhile (\<lambda>r. \<not> ?P r) (drop ?n rs)) = length rs"
      using n(1) that(1) by (intro no_match_offset) auto
    have "0 + length (takeWhile (\<lambda>r. \<not> ?P r) (drop 0 rs)) = i"
      using that by (intro first_match_offset) auto
    then have e0: "length (takeWhile (\<lambda>r. \<not> ?P r) rs) = i" by simp
    show ?thesis
      using unlocked s1 s0 e1 e0 that(2,3) rows by (simp add: getCommitInfoByField_def)
  qed
  have C: "getCommitInfoByField getFieldStr field txt startingRow s = Some CommitInfo_default"
    if "\<forall>j<length rs. \<not> ?P (rs ! j)"
  proof -
    have e1: "?n + length (takeWhile (\<lambda>r. \<not> ?P r) (drop ?n rs)) = length rs"
      using n(1) that by (intro no_match_offset) auto
    have "0 + length (takeWhile (\<lambda>r. \<not> ?P r) (drop 0 rs)) = length rs"
      using that by (intro no_match_offset) auto
    then have e0: "length (takeWhile (\<lambda>r. \<not> ?P r) rs) = length rs" by simp
    show ?thesis
      using unlocked s1 s0 e1 e0 rows by (simp add: getCommitInfoByField_def)
  qed
  show ?thesis unfolding hit_def using A B C by blast
qed

lemma getCommitInfoByField_on_live_rows_example:
  "\<not> mCacheLocked loaded_cache \<and> (0::int) \<le> 1 \<and> 1 \<le> count loaded_cache
   \<and> getCommitInfoByField pick_field True ''bob'' 1 loaded_cache = Some (three_rows ! 1)
   \<and> getCommitInfoByField pick_field True ''ann'' 1 loaded_cache = Some (three_rows ! 0)
   \<and> getCommitInfoByField pick_field True ''zed'' 1 loaded_cache = Some CommitInfo_default"
proof -
  have u: "\<not> mCacheLocked loaded_cache"
    by (simp add: loaded_cache_def RevisionsCache_new_def)
  have b: "(0::int) \<le> 1" "1 \<le> count loaded_cache"
    by (simp_all add: loaded_cache_def count_def)
  have len: "length three_rows = length (mCommits loaded_cache)"
    by (simp add: loaded_cache_def three_rows_def)
  have rows: "\<forall>i<length three_rows. deref_row loaded_cache i = Some (three_rows ! i)"
    by (simp add: loaded_cache_def three_rows_def deref_row_def deref_def less_Suc_eq all_conj_distrib
        numeral_3_eq_3)
  note inst = getCommitInfoByField_on_live_rows [OF u b len rows, of pick_field True]
  have a0: "pick_field True (three_rows ! 0) = ''ann''"
    and a1: "pick_field True (three_rows ! 1) = ''bob''"
    and a2: "pick_field True (three_rows ! 2) = ''bobby''"
    and l3: "length three_rows = 3"
    by (simp_all add: pick_field_def three_rows_def mk_commit_def addReference_def)
  have first: "getCommitInfoByField pick_field True ''bob'' 1 loaded_cache = Some (three_rows ! 1)"
    using inst [of "''bob''", THEN conjunct1, rule_format, of 1] a1 l3 by simp
  have wrapped: "getCommitInfoByField pick_field True ''ann'' 1 loaded_cache = Some (three_rows ! 0)"
  proof -
    have no: "\<forall>j. nat 1 \<le> j \<and> j < length three_rows \<longrightarrow>
                \<not> contains_str (pick_field True (three_rows ! j)) ''ann''"
    proof (intro allI impI)
      fix j assume "nat 1 \<le> j \<and> j < length three_rows"
      then have "j = 1 \<or> j = 2" using l3 by auto
      then show "\<not> contains_str (pick_field True (three_rows ! j)) ''ann''"
        using a1 a2 by auto
    qed
    show ?thesis
      using inst [of "''ann''", THEN conjunct2, THEN conjunct1, rule_format, of 0] no a0 l3
      by simp
  qed
  have missing: "getCommitInfoByField pick_field True ''zed'' 1 loaded_cache = Some CommitInfo_default"
  proof -
    have no: "\<forall>j<length three_rows. \<not> contains_str (pick_field True (three_rows ! j)) ''zed''"
    proof (intro allI impI)
      fix j assume "j < length three_rows"
      then have "j = 0 \<or> j = 1 \<or> j = 2" using l3 by auto
      then show "\<not> contains_str (pick_field True (three_rows ! j)) ''zed''"
        using a0 a1 a2 by auto
    qed
    show ?thesis
      using inst [of "''zed''", THEN conjunct2, THEN conjunct2, rule_format] no by simp
  qed
  from u b first wrapped missing show ?thesis by simp
qed

text \<open>
  Claim C9. \<open>getCommitInfoByField\<close> should return the first record from the starting row
  on whose field contains the text, for every unlocked cache. \<open>searchCommit\<close> reads
  through every slot it visits and, unlike \<open>getCommitInfoByRow\<close>, does not test it for
  null. After a bulk load sized for one commit and holding that commit at row 1, row 0 is
  null: it reads as the default record by row, the record at row 1 matches \<open>ann\<close>, and
  the search for \<open>ann\<close> from row 0 reads the null pointer of row 0.
\<close>

theorem C9_search_reads_null_row:
  "Option.bind
     (bulk_load counting_Lanes 1 [(mk_commit ''abc123'' [''abd999''] ''ann'', 1)] (RevisionsCache_new 0))
     (getCommitInfoByRow 1)
   = Some ((mk_commit ''abc123'' [''abd999''] ''ann'')\<lparr>lanes := [0]\<rparr>)
   \<and> contains_str (pick_field True ((mk_commit ''abc123'' [''abd999''] ''ann'')\<lparr>lanes := [0]\<rparr>)) ''ann''
   \<and> Option.bind
       (bulk_load counting_Lanes 1 [(mk_commit ''abc123'' [''abd999''] ''ann'', 1)] (RevisionsCache_new 0))
       (getCommitInfoByRow 0)
     = Some CommitInfo_default
   \<and> Option.bind
       (bulk_load counting_Lanes 1 [(mk_commit ''abc123'' [''abd999''] ''ann'', 1)] (RevisionsCache_new 0))
       (getCommitInfoByField pick_field True ''ann'' 0)
     = None"
  by (simp add: bulk_load_def beginCacheConfig_def getCommitInfoByRow_def getCommitInfoByField_def
      searchCommit_def pick_field_def numeral_2_eq_2 run_defs)

subsection \<open>Sizing the position index\<close>

text \<open>
  Claim C10. On a cold cache (unlocked, no rows) \<open>beginCacheConfig n\<close> sizes the position
  index at once: the row count is \<open>n + 1\<close> and every slot is null, so that every row
  reads as the default record, before any insert (for \<open>n + 1\<close> a valid \<open>int\<close> size).
  On a locked or non-empty cache the position index is unchanged.
\<close>

theorem C10_beginCacheConfig_presizes:
  "(\<not> mCacheLocked s \<and> mCommits s = [] \<and> - 1 \<le> n \<and> n < 2 ^ 31 - 1 \<longrightarrow>
      (\<exists>s'. beginCacheConfig n s = Some s' \<and> count s' = n + 1
            \<and> mCommits s' = replicate (nat (n + 1)) None
            \<and> (\<forall>row. getCommitInfoByRow row (endCacheConfig s') = Some CommitInfo_default)))
   \<and> (mCacheLocked s \<or> mCommits s \<noteq> [] \<longrightarrow>
      (\<exists>s'. beginCacheConfig n s = Some s' \<and> count s' = count s \<and> mCommits s' = mCommits s))"
  by (auto simp: beginCacheConfig_def count_def getCommitInfoByRow_def endCacheConfig_def)

theorem C10_beginCacheConfig_witness:
  "(\<exists>s'. beginCacheConfig 3 (RevisionsCache_new (0::nat) :: (nat, nat) RevisionsCache) = Some s'
         \<and> count s' = 4 \<and> mCommits s' = [None, None, None, None])
   \<and> (\<exists>s'. beginCacheConfig 7 ((RevisionsCache_new (0::nat) :: (nat, nat) RevisionsCache)\<lparr>mCommits := [None, None]\<rparr>) = Some s'
         \<and> count s' = 2)"
  using C10_beginCacheConfig_presizes [of "RevisionsCache_new (0::nat) :: (nat, nat) RevisionsCache" 3]
    C10_beginCacheConfig_presizes [of "(RevisionsCache_new (0::nat) :: (nat, nat) RevisionsCache)\<lparr>mCommits := [None, None]\<rparr>" 7]
  by (auto simp add: RevisionsCache_new_def count_def numeral_eq_Suc)

end
